theory Spec2Isabelle
  imports Main "HOL-Library.Word"
begin

unbundle bit_operations_syntax

section \<open>Bytes and the socket\<close>

text \<open>
  Python \<open>bytes\<close> are lists of 8-bit values. A connected socket is modelled by what is
  still to arrive on it: the list of chunks the transport will hand over, in order.
  When the list is used up the peer has closed the connection and \<open>recv\<close> returns the
  empty byte string, as \<open>socket.recv\<close> does at end of stream; an empty chunk inside
  the list stands for the same empty read.
\<close>

type_synonym byte = "8 word"
type_synonym bytes = "byte list"
type_synonym sock = "bytes list"

text \<open>
  \<open>sock.recv(n)\<close>: at most \<open>n\<close> bytes of what has arrived. A chunk longer than \<open>n\<close> is
  handed over in part and its remainder stays at the front of the stream.
\<close>

fun recv :: "sock \<Rightarrow> nat \<Rightarrow> bytes \<times> sock" where
  "recv [] n = ([], [])"
| "recv (c # cs) n =
     (if length c \<le> n then (c, cs) else (take n c, drop n c # cs))"

text \<open>\<open>int.from_bytes(bs, "big")\<close>.\<close>

definition from_bytes_big :: "bytes \<Rightarrow> nat" where
  "from_bytes_big bs = foldl (\<lambda>acc b. acc * 256 + unat b) 0 bs"

text \<open>The Python slice \<open>bs[i:j]\<close> for \<open>0 \<le> i \<le> j\<close>.\<close>

definition py_slice :: "nat \<Rightarrow> nat \<Rightarrow> 'a list \<Rightarrow> 'a list" where
  "py_slice i j bs = take (j - i) (drop i bs)"

datatype error = ConnectionError string

section \<open>recv_one_diameter\<close>

text \<open>
  The function is the same, line for line, in
  \<^verbatim>\<open>send_and_receive_ccr_i_ccr_u_ccr_t.py\<close>, \<^verbatim>\<open>send_and_terminate_ccr_when_data_exhausted.py\<close>
  and \<^verbatim>\<open>send_data_ccr.py\<close>. Its two \<open>while\<close> loops are the two functions below; each
  returns the bytes it gathered together with the socket as it leaves it, or the
  \<open>ConnectionError\<close> it raises.
\<close>

function read_header :: "sock \<Rightarrow> bytes \<Rightarrow> error + (bytes \<times> sock)" where
  "read_header s header =
     (if length header < 20 then
        (case recv s (20 - length header) of
           (chunk, s') \<Rightarrow>
             if chunk = [] then
               Inl (ConnectionError ''Socket closed while reading Diameter header'')
             else read_header s' (header @ chunk))
      else Inr (header, s))"
  by pat_completeness auto
termination
proof (relation "measure (\<lambda>(s, header). 20 - length header)")
  fix s :: sock and header chunk :: bytes and s' :: sock
  assume "length header < 20" and "chunk \<noteq> []"
  then have "20 - (length header + length chunk) < 20 - length header"
    by (cases chunk) auto
  then show "((s', header @ chunk), (s, header)) \<in> measure (\<lambda>(s, header). 20 - length header)"
    by simp
qed simp

function read_body :: "sock \<Rightarrow> int \<Rightarrow> bytes \<Rightarrow> error + (bytes \<times> sock)" where
  "read_body s total_len body =
     (if int (length body) < total_len - 20 then
        (case recv s (nat ((total_len - 20) - int (length body))) of
           (chunk, s') \<Rightarrow>
             if chunk = [] then
               Inl (ConnectionError ''Socket closed while reading Diameter body'')
             else read_body s' total_len (body @ chunk))
      else Inr (body, s))"
  by pat_completeness auto
termination
proof (relation "measure (\<lambda>(s, total_len, body). nat (total_len - 20 - int (length body)))")
  fix s :: sock and total_len :: int and body chunk :: bytes and s' :: sock
  assume "int (length body) < total_len - 20" and "chunk \<noteq> []"
  then have "nat (total_len - 20 - int (length (body @ chunk)))
               < nat (total_len - 20 - int (length body))"
    by (cases chunk) auto
  then show "((s', total_len, body @ chunk), (s, total_len, body))
          \<in> measure (\<lambda>(s, total_len, body). nat (total_len - 20 - int (length body)))"
    by simp
qed simp

definition recv_one_diameter :: "sock \<Rightarrow> error + (bytes \<times> sock)" where
  "recv_one_diameter s =
     (case read_header s [] of
        Inl e \<Rightarrow> Inl e
      | Inr (header, s1) \<Rightarrow>
          (let total_len = int (from_bytes_big (py_slice 1 4 header)) in
           case read_body s1 total_len [] of
             Inl e \<Rightarrow> Inl e
           | Inr (body, s2) \<Rightarrow> Inr (header @ body, s2)))"

text \<open>
  Three notions to state the framing properties with. \<open>avail s\<close> is what the stream
  delivers before its first empty read; \<open>strip n cs\<close> is the chunk list \<open>cs\<close> with
  its first \<open>n\<close> bytes taken off the front; \<open>rest_after n s\<close> is the socket \<open>s\<close>
  once \<open>n\<close> of its available bytes have been read.
\<close>

definition avail :: "sock \<Rightarrow> bytes" where
  "avail s = concat (takeWhile (\<lambda>c. c \<noteq> []) s)"

fun strip :: "nat \<Rightarrow> bytes list \<Rightarrow> bytes list" where
  "strip n [] = []"
| "strip n (c # cs) =
     (if n = 0 then c # cs
      else if length c \<le> n then strip (n - length c) cs
      else drop n c # cs)"

definition rest_after :: "nat \<Rightarrow> sock \<Rightarrow> sock" where
  "rest_after n s = strip n (takeWhile (\<lambda>c. c \<noteq> []) s) @ dropWhile (\<lambda>c. c \<noteq> []) s"

section \<open>The library objects the scripts build\<close>

text \<open>
  Modelled from the spec: the constants of \<^verbatim>\<open>diameter.message.constants\<close> that the scripts
  name. The module is not among the sources. The values are those of RFC 6733, RFC 4006
  and 3GPP TS 32.299; the scripts' own comments repeat several of them (application 4,
  Multiple-Services-Indicator 455, Reporting-Reason 872, FINAL 2, QUOTA_EXHAUSTED 3).
\<close>

definition APP_DIAMETER_CREDIT_CONTROL_APPLICATION :: int where
  "APP_DIAMETER_CREDIT_CONTROL_APPLICATION = 4"

definition E_CC_REQUEST_TYPE_INITIAL_REQUEST :: int where
  "E_CC_REQUEST_TYPE_INITIAL_REQUEST = 1"

definition E_CC_REQUEST_TYPE_UPDATE_REQUEST :: int where
  "E_CC_REQUEST_TYPE_UPDATE_REQUEST = 2"

definition E_CC_REQUEST_TYPE_TERMINATION_REQUEST :: int where
  "E_CC_REQUEST_TYPE_TERMINATION_REQUEST = 3"

definition E_SUBSCRIPTION_ID_TYPE_END_USER_E164 :: int where
  "E_SUBSCRIPTION_ID_TYPE_END_USER_E164 = 0"

definition E_SUBSCRIPTION_ID_TYPE_END_USER_IMSI :: int where
  "E_SUBSCRIPTION_ID_TYPE_END_USER_IMSI = 1"

definition E_SUBSCRIPTION_ID_TYPE_END_USER_NAI :: int where
  "E_SUBSCRIPTION_ID_TYPE_END_USER_NAI = 3"

definition E_INBAND_SECURITY_ID_NO_INBAND_SECURITY :: int where
  "E_INBAND_SECURITY_ID_NO_INBAND_SECURITY = 0"

definition VENDOR_TGPP :: int where
  "VENDOR_TGPP = 10415"

definition AVP_SUPPORTED_VENDOR_ID :: int where
  "AVP_SUPPORTED_VENDOR_ID = 265"

definition AVP_MULTIPLE_SERVICES_INDICATOR :: int where
  "AVP_MULTIPLE_SERVICES_INDICATOR = 455"

definition AVP_TGPP_3GPP_REPORTING_REASON :: int where
  "AVP_TGPP_3GPP_REPORTING_REASON = 872"

definition AVP_TGPP_SERVICE_INFORMATION :: int where
  "AVP_TGPP_SERVICE_INFORMATION = 873"

definition AVP_TGPP_PS_INFORMATION :: int where
  "AVP_TGPP_PS_INFORMATION = 874"

definition AVP_TGPP_3GPP_PDP_TYPE :: int where
  "AVP_TGPP_3GPP_PDP_TYPE = 3"

definition AVP_TGPP_PDP_ADDRESS :: int where
  "AVP_TGPP_PDP_ADDRESS = 1227"

definition AVP_TGPP_3GPP_NSAPI :: int where
  "AVP_TGPP_3GPP_NSAPI = 10"

definition AVP_TGPP_3GPP_RAT_TYPE :: int where
  "AVP_TGPP_3GPP_RAT_TYPE = 21"

text \<open>
  Modelled from the spec: the library's \<open>Avp\<close> class, which is not among the sources. An
  \<open>Avp\<close> object as \<open>Avp.new(code, vendor_id=0, value=None)\<close> makes it: its code, its
  vendor id (0 when none is given) and its value. The library picks the value's Diameter
  type from its dictionary by the code; the model writes that type at each call (RFC 4006:
  the octet counters 421, 412, 414 are Unsigned64, Rating-Group 432 is Unsigned32, the
  groups 437, 446, 456 are Grouped; 3GPP: 872 and 3 are Enumerated, 1227 is an Address,
  10 and 21 are octet strings).
\<close>

datatype 'a avp_value =
    NoValue
  | Unsigned32 int
  | Unsigned64 int
  | Enumerated int
  | OctetString bytes
  | UTF8String string
  | Address string
  | Grouped "'a list"

datatype avp = Avp (avp_code: int) (avp_vendor_id: int) (avp_val: "avp avp_value")

text \<open>Sequencing of steps that can fail: the first error ends the computation.\<close>

definition and_then :: "'e + 'a \<Rightarrow> ('a \<Rightarrow> 'e + 'b) \<Rightarrow> 'e + 'b" where
  "and_then r f = (case r of Inl e \<Rightarrow> Inl e | Inr x \<Rightarrow> f x)"

text \<open>
  Modelled from the spec: \<open>Avp.new\<close> of the library, which is not among the sources. It
  encodes the value when it is called, as a fixed-width big-endian integer for a numeric
  AVP, and raises \<open>AvpEncodeError\<close> when the value does not fit the width: Unsigned32 is
  \<open>0 .. 2^32 - 1\<close>, Unsigned64 is \<open>0 .. 2^64 - 1\<close>, Enumerated (a signed 32-bit integer) is
  \<open>-2^31 .. 2^31 - 1\<close>. Where a script calls \<open>Avp.new\<close> on a value that the script itself
  fixes (a literal, a module constant, the reporting reason 2 or 3) and that fits, the
  model writes the object \<open>Avp code vendor value\<close> it returns.
\<close>

datatype avp_error = AvpEncodeError

definition fits :: "avp avp_value \<Rightarrow> bool" where
  "fits v =
     (case v of
        Unsigned32 n \<Rightarrow> 0 \<le> n \<and> n < 2 ^ 32
      | Unsigned64 n \<Rightarrow> 0 \<le> n \<and> n < 2 ^ 64
      | Enumerated n \<Rightarrow> - (2 ^ 31) \<le> n \<and> n < 2 ^ 31
      | _ \<Rightarrow> True)"

definition Avp_new :: "int \<Rightarrow> int \<Rightarrow> avp avp_value \<Rightarrow> avp_error + avp" where
  "Avp_new code vendor v = (if fits v then Inr (Avp code vendor v) else Inl AvpEncodeError)"

text \<open>The assignment \<open>avp.value = v\<close>.\<close>

definition set_value :: "avp \<Rightarrow> avp avp_value \<Rightarrow> avp" where
  "set_value a v = Avp (avp_code a) (avp_vendor_id a) v"

text \<open>The bytes of an ASCII byte-string literal \<open>b"..."\<close>.\<close>

definition ascii :: "string \<Rightarrow> bytes" where
  "ascii s = map (\<lambda>c. of_nat (of_char c)) s"

text \<open>
  Modelled from the spec: the library's message classes, which are not among the sources,
  as far as the scripts and the test use them. The header fields and the attributes every
  command shares are the base record; an attribute that has not been assigned is \<open>None\<close>.
  \<open>additional_avps\<close> is what \<open>append_avp\<close> has appended, in order.
\<close>

record header =
  version :: int
  command_code :: int
  application_id :: int
  is_request :: bool
  is_proxyable :: bool
  is_error :: bool
  is_retransmit :: bool
  hop_by_hop_identifier :: int
  end_to_end_identifier :: int
  header_length :: int

record message =
  header :: header
  origin_host :: "bytes option"
  origin_realm :: "bytes option"
  origin_state_id :: "int option"
  auth_application_id :: "int option"
  additional_avps :: "avp list"

record cer = message +
  host_ip_address :: "string option"
  vendor_id :: "int option"
  product_name :: "string option"
  inband_security_id :: "int option"
  acct_application_id :: "int option"
  firmware_revision :: "int option"

record service_unit =
  cc_total_octets :: "int option"

record mscc =
  rating_group :: "int option"
  requested_service_unit :: "service_unit option"
  used_service_unit :: "service_unit option"
  mscc_additional_avps :: "avp list"

record ccr = message +
  session_id :: "string option"
  destination_realm :: "bytes option"
  destination_host :: "bytes option"
  service_context_id :: "string option"
  user_name :: "string option"
  event_timestamp :: "int option"
  subscription_id :: "(int \<times> string) list"
  cc_request_type :: "int option"
  cc_request_number :: "int option"
  multiple_services_credit_control :: "mscc list"

text \<open>
  Modelled from the spec: the objects \<open>CapabilitiesExchangeRequest()\<close> and
  \<open>CreditControlRequest()\<close> as the library's constructors leave them, whose classes are not
  among the sources: no attribute assigned, nothing appended, and the header of the command
  (RFC 6733: Capabilities-Exchange is command 257 of application 0 and is not proxyable;
  RFC 4006: Credit-Control is command 272 of application 4).
\<close>

definition CapabilitiesExchangeRequest :: cer where
  "CapabilitiesExchangeRequest =
     \<lparr>header = \<lparr>version = 1, command_code = 257, application_id = 0, is_request = True,
                 is_proxyable = False, is_error = False, is_retransmit = False,
                 hop_by_hop_identifier = 0, end_to_end_identifier = 0,
                 header_length = 0\<rparr>,
      origin_host = None, origin_realm = None, origin_state_id = None,
      auth_application_id = None, additional_avps = [],
      host_ip_address = None, vendor_id = None, product_name = None,
      inband_security_id = None, acct_application_id = None,
      firmware_revision = None\<rparr>"

definition CreditControlRequest :: ccr where
  "CreditControlRequest =
     \<lparr>header = \<lparr>version = 1, command_code = 272, application_id = 4, is_request = True,
                 is_proxyable = True, is_error = False, is_retransmit = False,
                 hop_by_hop_identifier = 0, end_to_end_identifier = 0,
                 header_length = 0\<rparr>,
      origin_host = None, origin_realm = None, origin_state_id = None,
      auth_application_id = None, additional_avps = [],
      session_id = None, destination_realm = None, destination_host = None,
      service_context_id = None, user_name = None, event_timestamp = None,
      subscription_id = [], cc_request_type = None, cc_request_number = None,
      multiple_services_credit_control = []\<rparr>"

text \<open>
  Modelled from the spec: the library's methods \<open>msg.append_avp(a)\<close>,
  \<open>ccr.add_subscription_id(t, d)\<close> and \<open>ccr.add_multiple_services_credit_control(...)\<close>.
  Each appends to its list, preserving insertion order.
\<close>

definition append_avp :: "('a message_scheme) \<Rightarrow> avp \<Rightarrow> 'a message_scheme" where
  "append_avp m a = m\<lparr>additional_avps := additional_avps m @ [a]\<rparr>"

definition add_subscription_id :: "ccr \<Rightarrow> int \<Rightarrow> string \<Rightarrow> ccr" where
  "add_subscription_id c t d = c\<lparr>subscription_id := subscription_id c @ [(t, d)]\<rparr>"

definition add_multiple_services_credit_control ::
  "ccr \<Rightarrow> int \<Rightarrow> service_unit \<Rightarrow> service_unit \<Rightarrow> avp list \<Rightarrow> ccr" where
  "add_multiple_services_credit_control c rg rsu usu avps =
     c\<lparr>multiple_services_credit_control := multiple_services_credit_control c @
         [\<lparr>rating_group = Some rg, requested_service_unit = Some rsu,
           used_service_unit = Some usu, mscc_additional_avps = avps\<rparr>]\<rparr>"

text \<open>
  The clock. A script reads it when it builds a request: \<open>int(time.time())\<close>,
  \<open>int(time.time() * 1000)\<close> and \<open>datetime.now(utc)\<close>. The readings are inputs of the model.
\<close>

record stamp =
  time_s :: int
  time_ms :: int
  utc_now :: int

text \<open>
  What a script puts on the wire, in order, and what the peer sends back. The scripts
  send \<open>msg.as_bytes()\<close>; the wire trace keeps the object that was encoded.
\<close>

datatype wire_msg = CER cer | CCR ccr

text \<open>
  The exceptions that end a run of \<open>main\<close>: the \<open>ConnectionError\<close> of \<open>recv_one_diameter\<close>,
  whatever \<open>Message.from_bytes\<close> raises, and the \<open>AvpEncodeError\<close> of \<open>Avp.new\<close>.
\<close>

datatype exn = Raised error | FromBytesError | EncodeFailed avp_error

record conn =
  incoming :: sock
  sent :: "wire_msg list"


section \<open>send_and_terminate_ccr_when_data_exhausted.py\<close>

text \<open>
  Names that the two credit-control scripts both define carry the suffix \<open>_exh\<close> for this
  script and \<open>_iut\<close> for \<^verbatim>\<open>send_and_receive_ccr_i_ccr_u_ccr_t.py\<close>; constants with the same
  value in both are defined once.
\<close>

definition ORIGIN_HOST :: bytes where
  "ORIGIN_HOST = ascii ''mscp05.gpgw-01''"

definition ORIGIN_REALM :: bytes where
  "ORIGIN_REALM = ascii ''worldov.com''"

definition DEST_REALM :: bytes where
  "DEST_REALM = ascii ''diameter.eseye.com''"

definition DEST_HOST :: bytes where
  "DEST_HOST = ascii ''diameter01.eseye.com''"

definition SERVICE_CONTEXT_ID :: string where
  "SERVICE_CONTEXT_ID = ''32251@3gpp.org''"

definition ORIGIN_STATE_ID :: int where
  "ORIGIN_STATE_ID = 1771826400"

definition SUB_E164 :: string where
  "SUB_E164 = ''44792498159851''"

definition RATING_GROUP :: int where
  "RATING_GROUP = 8000"

definition NSAPI :: bytes where
  "NSAPI = [5]"

definition RAT_TYPE :: bytes where
  "RAT_TYPE = [6]"

definition USER_NAME_exh :: string where
  "USER_NAME_exh = ''overwrite@eseyetest.mnc004.mcc204.gprs''"

definition SUB_IMSI_exh :: string where
  "SUB_IMSI_exh = ''234588562842351''"

definition SUB_NAI_exh :: string where
  "SUB_NAI_exh = ''overwrite@eseyetest.mnc004.mcc204.gprs''"

definition PDP_IP_exh :: string where
  "PDP_IP_exh = ''198.18.153.112''"

definition DEFAULT_OCTETS :: int where
  "DEFAULT_OCTETS = 512000"

definition VALIDITY_SECONDS :: int where
  "VALIDITY_SECONDS = 1800"

definition SIM_STEP_BYTES :: int where
  "SIM_STEP_BYTES = 50 * 1024"

text \<open>
  What a run of the script takes from outside: \<open>SESSION_ID\<close>, which the module builds once
  from the clock when it is loaded; the clock readings of the three requests it builds;
  and \<open>elapsed_at i\<close>, the value of \<open>int(time.time() - start)\<close> at the \<open>i\<close>-th turn of the
  usage loop.
\<close>

record env =
  SESSION_ID :: string
  stamp_of :: "nat \<Rightarrow> stamp"
  elapsed_at :: "nat \<Rightarrow> int"

definition split_in_out :: "int \<Rightarrow> int \<times> int" where
  "split_in_out total' =
     (let inp = total' div 4;
          out = total' - inp
      in (inp, out))"

definition build_cer_exh :: cer where
  "build_cer_exh =
     (let cer = CapabilitiesExchangeRequest;
          cer = cer\<lparr>origin_host := Some ORIGIN_HOST\<rparr>;
          cer = cer\<lparr>origin_realm := Some ORIGIN_REALM\<rparr>;
          cer = cer\<lparr>origin_state_id := Some ORIGIN_STATE_ID\<rparr>;
          cer = cer\<lparr>auth_application_id := Some APP_DIAMETER_CREDIT_CONTROL_APPLICATION\<rparr>;
          cer = cer\<lparr>inband_security_id := Some E_INBAND_SECURITY_ID_NO_INBAND_SECURITY\<rparr>
      in cer)"

definition service_information :: "string \<Rightarrow> avp" where
  "service_information pdp_ip =
     (let service_info = Avp AVP_TGPP_SERVICE_INFORMATION VENDOR_TGPP NoValue;
          ps_info = Avp AVP_TGPP_PS_INFORMATION VENDOR_TGPP NoValue;
          ps_info = set_value ps_info (Grouped
            [Avp AVP_TGPP_3GPP_PDP_TYPE VENDOR_TGPP (Enumerated 0),
             Avp AVP_TGPP_PDP_ADDRESS VENDOR_TGPP (Address pdp_ip),
             Avp AVP_TGPP_3GPP_NSAPI VENDOR_TGPP (OctetString NSAPI),
             Avp AVP_TGPP_3GPP_RAT_TYPE VENDOR_TGPP (OctetString RAT_TYPE)]);
          service_info = set_value service_info (Grouped [ps_info])
      in service_info)"

definition add_common_ccr_avps_exh :: "env \<Rightarrow> stamp \<Rightarrow> ccr \<Rightarrow> ccr" where
  "add_common_ccr_avps_exh e st ccr =
     (let ccr = ccr\<lparr>header := (header ccr)
                  \<lparr>application_id := APP_DIAMETER_CREDIT_CONTROL_APPLICATION\<rparr>\<rparr>;
          ccr = ccr\<lparr>header := (header ccr)\<lparr>is_proxyable := True\<rparr>\<rparr>;
          ccr = ccr\<lparr>header := (header ccr)
                  \<lparr>hop_by_hop_identifier := time_s st AND 0xFFFFFFFF\<rparr>\<rparr>;
          ccr = ccr\<lparr>header := (header ccr)
                  \<lparr>end_to_end_identifier := time_ms st AND 0xFFFFFFFF\<rparr>\<rparr>;
          ccr = ccr\<lparr>session_id := Some (SESSION_ID e)\<rparr>;
          ccr = ccr\<lparr>origin_host := Some ORIGIN_HOST\<rparr>;
          ccr = ccr\<lparr>origin_realm := Some ORIGIN_REALM\<rparr>;
          ccr = ccr\<lparr>destination_realm := Some DEST_REALM\<rparr>;
          ccr = ccr\<lparr>destination_host := Some DEST_HOST\<rparr>;
          ccr = ccr\<lparr>auth_application_id := Some APP_DIAMETER_CREDIT_CONTROL_APPLICATION\<rparr>;
          ccr = ccr\<lparr>service_context_id := Some SERVICE_CONTEXT_ID\<rparr>;
          ccr = ccr\<lparr>user_name := Some USER_NAME_exh\<rparr>;
          ccr = ccr\<lparr>origin_state_id := Some ORIGIN_STATE_ID\<rparr>;
          ccr = ccr\<lparr>event_timestamp := Some (utc_now st)\<rparr>;
          ccr = add_subscription_id ccr E_SUBSCRIPTION_ID_TYPE_END_USER_E164 SUB_E164;
          ccr = add_subscription_id ccr E_SUBSCRIPTION_ID_TYPE_END_USER_IMSI SUB_IMSI_exh;
          ccr = add_subscription_id ccr E_SUBSCRIPTION_ID_TYPE_END_USER_NAI SUB_NAI_exh;
          ccr = append_avp ccr (Avp 455 0 (Enumerated 1));
          ccr = append_avp ccr (service_information PDP_IP_exh)
      in ccr)"

text \<open>
  \<open>build_mscc\<close>. Its arguments are not literals, so every \<open>Avp.new\<close> in it can raise; the
  calls are made in the order Python evaluates them, and the first \<open>AvpEncodeError\<close> is
  the result.
\<close>

definition build_mscc :: "int \<Rightarrow> int \<Rightarrow> int \<Rightarrow> avp_error + avp" where
  "build_mscc requested_octets used_total reporting_reason =
     (case split_in_out used_total of
        (inp, out) \<Rightarrow>
          and_then (Avp_new 421 0 (Unsigned64 requested_octets)) (\<lambda>rsu_total.
          and_then (Avp_new 437 0 (Grouped [rsu_total])) (\<lambda>rsu.
          and_then (Avp_new 421 0 (Unsigned64 used_total)) (\<lambda>usu_total.
          and_then (Avp_new 412 0 (Unsigned64 inp)) (\<lambda>usu_inp.
          and_then (Avp_new 414 0 (Unsigned64 out)) (\<lambda>usu_out.
          and_then (Avp_new 446 0 (Grouped [usu_total, usu_inp, usu_out])) (\<lambda>usu.
          and_then (Avp_new 432 0 (Unsigned32 RATING_GROUP)) (\<lambda>rg.
          and_then (Avp_new AVP_TGPP_3GPP_REPORTING_REASON VENDOR_TGPP
                      (Enumerated reporting_reason)) (\<lambda>rr.
            Avp_new 456 0 (Grouped [rsu, usu, rg, rr]))))))))))"

text \<open>
  \<open>build_ccr\<close> returns \<open>ccr.as_bytes()\<close>; the model returns the request object that is
  encoded, or the \<open>AvpEncodeError\<close> that \<open>build_mscc\<close> raises.
\<close>

definition build_ccr_exh ::
  "env \<Rightarrow> stamp \<Rightarrow> int \<Rightarrow> int \<Rightarrow> int \<Rightarrow> int \<Rightarrow> avp_error + ccr" where
  "build_ccr_exh e st req_type req_no used_total reporting_reason =
     (let ccr = CreditControlRequest;
          ccr = add_common_ccr_avps_exh e st ccr;
          ccr = ccr\<lparr>cc_request_type := Some req_type\<rparr>;
          ccr = ccr\<lparr>cc_request_number := Some req_no\<rparr>
      in and_then (build_mscc DEFAULT_OCTETS used_total reporting_reason) (\<lambda>mscc.
           Inr (append_avp ccr mscc)))"

text \<open>
  \<open>send_and_wait\<close>: \<open>sendall\<close>, then \<open>recv_one_diameter\<close>, whose \<open>ConnectionError\<close> goes up to
  the caller. \<open>parse_result_code\<close> only feeds the log and catches every exception itself.
\<close>

definition send_and_wait :: "conn \<Rightarrow> wire_msg \<Rightarrow> (error + bytes) \<times> conn" where
  "send_and_wait c payload =
     (let c = c\<lparr>sent := sent c @ [payload]\<rparr> in
      case recv_one_diameter (incoming c) of
        Inl e \<Rightarrow> (Inl e, c)
      | Inr (raw, s) \<Rightarrow> (Inr raw, c\<lparr>incoming := s\<rparr>))"

text \<open>
  The usage loop of \<open>main\<close>. It returns \<open>used_total\<close> as the loop leaves it and the \<open>break\<close>
  that ended it; \<open>trace\<close> records, in order, every value \<open>used_total\<close> has held.
\<close>

datatype loop_exit = QuotaExhausted | ValidityExpired

function usage_loop :: "(nat \<Rightarrow> int) \<Rightarrow> nat \<Rightarrow> int \<Rightarrow> int list \<Rightarrow> int \<times> loop_exit \<times> int list" where
  "usage_loop elapsed_of i used_total trace =
     (let elapsed = elapsed_of i in
      if used_total \<ge> DEFAULT_OCTETS then (used_total, QuotaExhausted, trace)
      else if elapsed \<ge> VALIDITY_SECONDS then (used_total, ValidityExpired, trace)
      else
        let used_total = min DEFAULT_OCTETS (used_total + SIM_STEP_BYTES) in
        usage_loop elapsed_of (Suc i) used_total (trace @ [used_total]))"
  by pat_completeness auto
termination
  by (relation "measure (\<lambda>(elapsed_of, i, used_total, trace). nat (DEFAULT_OCTETS - used_total))")
     (auto simp: DEFAULT_OCTETS_def SIM_STEP_BYTES_def)

text \<open>
  \<open>main\<close>, from the moment the connection is open: \<open>s\<close> is what the peer will send. A
  \<open>ConnectionError\<close> from \<open>recv_one_diameter\<close> or an \<open>AvpEncodeError\<close> from \<open>build_ccr\<close> ends
  the run; the result is that exception or \<open>()\<close>, and the connection with everything that
  was sent. Connecting, the socket's time-out and the log are outside the model.
\<close>

definition main_exh :: "env \<Rightarrow> sock \<Rightarrow> (exn + unit) \<times> conn" where
  "main_exh e s =
     (let used_total = 0;
          c = \<lparr>incoming = s, sent = []\<rparr> in
      case send_and_wait c (CER build_cer_exh) of
        (Inl err, c) \<Rightarrow> (Inl (Raised err), c)
      | (Inr cea, c) \<Rightarrow>
      case build_ccr_exh e (stamp_of e 0) E_CC_REQUEST_TYPE_INITIAL_REQUEST 0 0 2 of
        Inl err \<Rightarrow> (Inl (EncodeFailed err), c)
      | Inr ccr_i \<Rightarrow>
      case send_and_wait c (CCR ccr_i) of
        (Inl err, c) \<Rightarrow> (Inl (Raised err), c)
      | (Inr cca, c) \<Rightarrow>
      case usage_loop (elapsed_at e) 0 used_total [used_total] of
        (used_total, exit, trace) \<Rightarrow>
      case build_ccr_exh e (stamp_of e 1) E_CC_REQUEST_TYPE_UPDATE_REQUEST 1 used_total 3 of
        Inl err \<Rightarrow> (Inl (EncodeFailed err), c)
      | Inr ccr_u \<Rightarrow>
      case send_and_wait c (CCR ccr_u) of
        (Inl err, c) \<Rightarrow> (Inl (Raised err), c)
      | (Inr cca, c) \<Rightarrow>
      case build_ccr_exh e (stamp_of e 2) E_CC_REQUEST_TYPE_TERMINATION_REQUEST 2 used_total 2 of
        Inl err \<Rightarrow> (Inl (EncodeFailed err), c)
      | Inr ccr_t \<Rightarrow>
      case send_and_wait c (CCR ccr_t) of
        (Inl err, c) \<Rightarrow> (Inl (Raised err), c)
      | (Inr cca, c) \<Rightarrow> (Inr (), c))"

section \<open>send_and_receive_ccr_i_ccr_u_ccr_t.py\<close>

definition SESSION_ID_iut :: string where
  "SESSION_ID_iut = ''gpgw-01;061a7445;6994418f;204046996259851-04675025''"

definition USER_NAME_iut :: string where
  "USER_NAME_iut = ''204046996259851@nai.epc.mnc004.mcc204.3gppnetwork.org''"

definition SUB_IMSI_iut :: string where
  "SUB_IMSI_iut = ''204046996259851''"

definition SUB_NAI_iut :: string where
  "SUB_NAI_iut = ''204046996259851nai.epc.mnc004.mcc204.3gppnetwork.org''"

definition REQ_TOTAL_OCTETS :: int where
  "REQ_TOTAL_OCTETS = 10485"

definition USED_I_TOTAL :: int where
  "USED_I_TOTAL = 10485"

definition USED_U_TOTAL :: int where
  "USED_U_TOTAL = 10485"

definition USED_T_TOTAL :: int where
  "USED_T_TOTAL = 512000"

definition PDP_IP_iut :: string where
  "PDP_IP_iut = ''198.18.153.154''"

definition CER_HOST_IP :: string where
  "CER_HOST_IP = ''198.18.153.154''"

definition CER_VENDOR_ID :: int where
  "CER_VENDOR_ID = 6527"

definition CER_PRODUCT_NAME :: string where
  "CER_PRODUCT_NAME = ''SR-OS-MG''"

definition build_cer_iut :: cer where
  "build_cer_iut =
     (let cer = CapabilitiesExchangeRequest;
          cer = cer\<lparr>origin_host := Some ORIGIN_HOST\<rparr>;
          cer = cer\<lparr>origin_realm := Some ORIGIN_REALM\<rparr>;
          cer = cer\<lparr>host_ip_address := Some CER_HOST_IP\<rparr>;
          cer = cer\<lparr>vendor_id := Some CER_VENDOR_ID\<rparr>;
          cer = cer\<lparr>product_name := Some CER_PRODUCT_NAME\<rparr>;
          cer = cer\<lparr>origin_state_id := Some ORIGIN_STATE_ID\<rparr>;
          cer = cer\<lparr>auth_application_id := Some APP_DIAMETER_CREDIT_CONTROL_APPLICATION\<rparr>;
          cer = cer\<lparr>inband_security_id := Some E_INBAND_SECURITY_ID_NO_INBAND_SECURITY\<rparr>
      in cer)"

definition add_common_ccr_avps_iut :: "stamp \<Rightarrow> ccr \<Rightarrow> ccr" where
  "add_common_ccr_avps_iut st ccr =
     (let ccr = ccr\<lparr>header := (header ccr)
                  \<lparr>application_id := APP_DIAMETER_CREDIT_CONTROL_APPLICATION\<rparr>\<rparr>;
          ccr = ccr\<lparr>header := (header ccr)\<lparr>is_proxyable := True\<rparr>\<rparr>;
          ccr = ccr\<lparr>session_id := Some SESSION_ID_iut\<rparr>;
          ccr = ccr\<lparr>origin_host := Some ORIGIN_HOST\<rparr>;
          ccr = ccr\<lparr>origin_realm := Some ORIGIN_REALM\<rparr>;
          ccr = ccr\<lparr>destination_realm := Some DEST_REALM\<rparr>;
          ccr = ccr\<lparr>destination_host := Some DEST_HOST\<rparr>;
          ccr = ccr\<lparr>auth_application_id := Some APP_DIAMETER_CREDIT_CONTROL_APPLICATION\<rparr>;
          ccr = ccr\<lparr>service_context_id := Some SERVICE_CONTEXT_ID\<rparr>;
          ccr = ccr\<lparr>user_name := Some USER_NAME_iut\<rparr>;
          ccr = ccr\<lparr>origin_state_id := Some ORIGIN_STATE_ID\<rparr>;
          ccr = ccr\<lparr>event_timestamp := Some (utc_now st)\<rparr>;
          ccr = add_subscription_id ccr E_SUBSCRIPTION_ID_TYPE_END_USER_E164 SUB_E164;
          ccr = add_subscription_id ccr E_SUBSCRIPTION_ID_TYPE_END_USER_IMSI SUB_IMSI_iut;
          ccr = add_subscription_id ccr E_SUBSCRIPTION_ID_TYPE_END_USER_NAI SUB_NAI_iut;
          ccr = append_avp ccr (Avp AVP_MULTIPLE_SERVICES_INDICATOR 0 (Enumerated 1));
          ccr = append_avp ccr (service_information PDP_IP_iut)
      in ccr)"

definition build_ccr_iut :: "stamp \<Rightarrow> int \<Rightarrow> int \<Rightarrow> int \<Rightarrow> ccr" where
  "build_ccr_iut st request_type request_number used_total_octets =
     (let ccr = CreditControlRequest;
          ccr = ccr\<lparr>header := (header ccr)
                  \<lparr>hop_by_hop_identifier := time_s st AND 0xFFFFFFFF\<rparr>\<rparr>;
          ccr = ccr\<lparr>header := (header ccr)
                  \<lparr>end_to_end_identifier := time_ms st AND 0xFFFFFFFF\<rparr>\<rparr>;
          ccr = add_common_ccr_avps_iut st ccr;
          ccr = ccr\<lparr>cc_request_type := Some request_type\<rparr>;
          ccr = ccr\<lparr>cc_request_number := Some request_number\<rparr>;
          reporting_reason =
            (if request_type = E_CC_REQUEST_TYPE_UPDATE_REQUEST then 3 else 2);
          ccr = add_multiple_services_credit_control ccr RATING_GROUP
                  \<lparr>cc_total_octets = Some REQ_TOTAL_OCTETS\<rparr>
                  \<lparr>cc_total_octets = Some used_total_octets\<rparr>
                  [Avp AVP_TGPP_3GPP_REPORTING_REASON VENDOR_TGPP (Enumerated reporting_reason)]
      in ccr)"

text \<open>
  \<open>send_and_recv\<close> decodes the answer with the library's \<open>Message.from_bytes\<close>, which is not
  among the sources and may raise on bytes it cannot decode. It is a parameter here:
  \<open>from_bytes raw = None\<close> when it raises.
\<close>

definition send_and_recv ::
  "(bytes \<Rightarrow> 'm option) \<Rightarrow> conn \<Rightarrow> wire_msg \<Rightarrow> (exn + 'm) \<times> conn" where
  "send_and_recv from_bytes c msg_bytes =
     (let c = c\<lparr>sent := sent c @ [msg_bytes]\<rparr> in
      case recv_one_diameter (incoming c) of
        Inl e \<Rightarrow> (Inl (Raised e), c)
      | Inr (raw, s) \<Rightarrow>
          (case from_bytes raw of
             None \<Rightarrow> (Inl FromBytesError, c\<lparr>incoming := s\<rparr>)
           | Some ans \<Rightarrow> (Inr ans, c\<lparr>incoming := s\<rparr>)))"

text \<open>\<open>main\<close> of this script, modelled as the other script's.\<close>

definition main_iut ::
  "(bytes \<Rightarrow> 'm option) \<Rightarrow> (nat \<Rightarrow> stamp) \<Rightarrow> sock \<Rightarrow> (exn + unit) \<times> conn" where
  "main_iut from_bytes stamps s =
     (let c = \<lparr>incoming = s, sent = []\<rparr> in
      case send_and_recv from_bytes c (CER build_cer_iut) of
        (Inl err, c) \<Rightarrow> (Inl err, c)
      | (Inr cea, c) \<Rightarrow>
      let ccr_i = build_ccr_iut (stamps 0) E_CC_REQUEST_TYPE_INITIAL_REQUEST 0 USED_I_TOTAL in
      case send_and_recv from_bytes c (CCR ccr_i) of
        (Inl err, c) \<Rightarrow> (Inl err, c)
      | (Inr cca, c) \<Rightarrow>
      let ccr_u = build_ccr_iut (stamps 1) E_CC_REQUEST_TYPE_UPDATE_REQUEST 1 USED_U_TOTAL in
      case send_and_recv from_bytes c (CCR ccr_u) of
        (Inl err, c) \<Rightarrow> (Inl err, c)
      | (Inr cca, c) \<Rightarrow>
      let ccr_t = build_ccr_iut (stamps 2) E_CC_REQUEST_TYPE_TERMINATION_REQUEST 2 USED_T_TOTAL in
      case send_and_recv from_bytes c (CCR ccr_t) of
        (Inl err, c) \<Rightarrow> (Inl err, c)
      | (Inr cca, c) \<Rightarrow> (Inr (), c))"

section \<open>Reading the requests back\<close>

text \<open>
  What the properties below read off a request object: the members of a grouped AVP, an
  integer value, the Reporting-Reason values inside the request's
  Multiple-Services-Credit-Control groups (whether the group was appended as AVP 456 or
  added through \<open>add_multiple_services_credit_control\<close>), and the requests among the
  messages sent on a connection.
\<close>

definition children :: "avp \<Rightarrow> avp list" where
  "children a = (case avp_val a of Grouped xs \<Rightarrow> xs | _ \<Rightarrow> [])"

definition find_avp :: "int \<Rightarrow> int \<Rightarrow> avp list \<Rightarrow> avp option" where
  "find_avp code vendor xs = List.find (\<lambda>a. avp_code a = code \<and> avp_vendor_id a = vendor) xs"

definition int_value :: "avp \<Rightarrow> int option" where
  "int_value a =
     (case avp_val a of
        Unsigned32 n \<Rightarrow> Some n
      | Unsigned64 n \<Rightarrow> Some n
      | Enumerated n \<Rightarrow> Some n
      | _ \<Rightarrow> None)"

definition rr_values :: "avp list \<Rightarrow> int list" where
  "rr_values xs =
     List.map_filter int_value
       (filter (\<lambda>a. avp_code a = AVP_TGPP_3GPP_REPORTING_REASON \<and> avp_vendor_id a = VENDOR_TGPP) xs)"

definition mscc_avps :: "ccr \<Rightarrow> avp list list" where
  "mscc_avps c =
     map children (filter (\<lambda>a. avp_code a = 456 \<and> avp_vendor_id a = 0) (additional_avps c))
     @ map mscc_additional_avps (multiple_services_credit_control c)"

definition reporting_reasons :: "ccr \<Rightarrow> int list" where
  "reporting_reasons c = concat (map rr_values (mscc_avps c))"

fun ccrs :: "wire_msg list \<Rightarrow> ccr list" where
  "ccrs [] = []"
| "ccrs (CCR c # ms) = c # ccrs ms"
| "ccrs (CER c # ms) = ccrs ms"

text \<open>\<open>stepwise xs\<close>: each element of \<open>xs\<close> after the first is the loop's update of the
  one before it.\<close>

fun stepwise :: "int list \<Rightarrow> bool" where
  "stepwise (a # b # xs) = (b = min DEFAULT_OCTETS (a + SIM_STEP_BYTES) \<and> stepwise (b # xs))"
| "stepwise xs = True"

text \<open>
  Inputs for the worked runs: a clock that reads the same at every turn, and an answer
  from the peer that is a bare 20-byte header declaring its own length (a Credit-Control
  answer for application 4).
\<close>

definition every_time :: "'a \<Rightarrow> nat \<Rightarrow> 'a" where
  "every_time x i = x"

definition bare_answer :: bytes where
  "bare_answer = [1, 0, 0, 20, 64, 0, 1, 16, 0, 0, 0, 4, 0, 0, 0, 0, 0, 0, 0, 0]"

definition four_answers :: sock where
  "four_answers = [bare_answer, bare_answer, bare_answer, bare_answer]"

definition stamp0 :: stamp where
  "stamp0 = \<lparr>time_s = 1771826400, time_ms = 1771826400000, utc_now = 1771826400\<rparr>"

text \<open>A run of the quota script in which the elapsed time reads \<open>t\<close> at every turn of the
  usage loop.\<close>

definition env_at :: "int \<Rightarrow> env" where
  "env_at t =
     \<lparr>SESSION_ID = ''gpgw-01;1771826400;234588562842351-500k'',
      stamp_of = every_time stamp0,
      elapsed_at = every_time t\<rparr>"

section \<open>send_cer.py\<close>

definition ORIGIN_STATE_ID_cer :: int where
  "ORIGIN_STATE_ID_cer = 1753697272"

definition HOST_IP_STRING :: string where
  "HOST_IP_STRING = ''198.18.153.109''"

definition VENDOR_ID :: int where
  "VENDOR_ID = 6527"

definition PRODUCT_NAME :: string where
  "PRODUCT_NAME = ''SR-OS-MG''"

definition SUPPORTED_VENDOR_IDS :: "int list" where
  "SUPPORTED_VENDOR_IDS = [10415, 5535]"

definition AUTH_APP_ID :: int where
  "AUTH_APP_ID = 4"

text \<open>
  \<open>build_cer\<close> of \<^verbatim>\<open>send_cer.py\<close>, up to the object it encodes. The \<open>for\<close> loop over
  \<open>SUPPORTED_VENDOR_IDS\<close> is the fold. The script does not assign \<open>inband_security_id\<close>.
\<close>

definition build_cer_send :: cer where
  "build_cer_send =
     (let cer = CapabilitiesExchangeRequest;
          cer = cer\<lparr>origin_host := Some ORIGIN_HOST\<rparr>;
          cer = cer\<lparr>origin_realm := Some ORIGIN_REALM\<rparr>;
          cer = cer\<lparr>host_ip_address := Some HOST_IP_STRING\<rparr>;
          cer = cer\<lparr>vendor_id := Some VENDOR_ID\<rparr>;
          cer = cer\<lparr>product_name := Some PRODUCT_NAME\<rparr>;
          cer = cer\<lparr>origin_state_id := Some ORIGIN_STATE_ID_cer\<rparr>;
          cer = cer\<lparr>auth_application_id := Some AUTH_APP_ID\<rparr>;
          cer = foldl (\<lambda>cer vid. append_avp cer (Avp AVP_SUPPORTED_VENDOR_ID 0 (Unsigned32 vid)))
                  cer SUPPORTED_VENDOR_IDS
      in cer)"

section \<open>tests/test_capabilities_exchange.py\<close>

text \<open>The request that \<open>test_cer_create_new\<close> builds before it calls \<open>as_bytes\<close>.\<close>

definition test_cer :: cer where
  "test_cer =
     (let cer = CapabilitiesExchangeRequest;
          cer = cer\<lparr>origin_host := Some (ascii ''mscp05.gpgw-01'')\<rparr>;
          cer = cer\<lparr>origin_realm := Some (ascii ''worldov.com'')\<rparr>;
          cer = cer\<lparr>host_ip_address := Some ''0.0.0.0''\<rparr>;
          cer = cer\<lparr>vendor_id := Some 6527\<rparr>;
          cer = cer\<lparr>product_name := Some ''SR-OS-MG''\<rparr>;
          cer = cer\<lparr>origin_state_id := Some 1689134718\<rparr>;
          cer = cer\<lparr>auth_application_id := Some APP_DIAMETER_CREDIT_CONTROL_APPLICATION\<rparr>;
          cer = cer\<lparr>inband_security_id := Some E_INBAND_SECURITY_ID_NO_INBAND_SECURITY\<rparr>;
          cer = cer\<lparr>acct_application_id := Some APP_DIAMETER_CREDIT_CONTROL_APPLICATION\<rparr>;
          cer = cer\<lparr>firmware_revision := Some 16777216\<rparr>
      in cer)"

section \<open>The message codec\<close>

text \<open>
  Modelled from the spec: the library's codec (\<open>as_bytes\<close>, \<open>Message.from_bytes\<close>), whose
  code is not among the sources. Everything in this section follows sections 3, 4.1, 4.2
  and 6 of the specification, and RFC 6733 where the specification defers to it for the
  byte layout.
\<close>

datatype codec_error = EncodeError | MalformedAvp | TruncatedMessage | MalformedMessage

fun concat_all :: "('e + bytes) list \<Rightarrow> 'e + bytes" where
  "concat_all [] = Inr []"
| "concat_all (r # rs) =
     (case r of
        Inl e \<Rightarrow> Inl e
      | Inr b \<Rightarrow> (case concat_all rs of Inl e \<Rightarrow> Inl e | Inr bs \<Rightarrow> Inr (b @ bs)))"

text \<open>
  Modelled from the spec: a fixed-width big-endian unsigned integer. \<open>be k n\<close> are the \<open>k\<close>
  low-order bytes of \<open>n\<close>; \<open>to_bytes_big\<close> refuses a value that does not fit the width.
\<close>

fun be :: "nat \<Rightarrow> nat \<Rightarrow> bytes" where
  "be 0 n = []"
| "be (Suc k) n = be k (n div 256) @ [of_nat (n mod 256)]"

definition to_bytes_big :: "nat \<Rightarrow> int \<Rightarrow> codec_error + bytes" where
  "to_bytes_big k n = (if 0 \<le> n \<and> n < 256 ^ k then Inr (be k (nat n)) else Inl EncodeError)"

text \<open>Modelled from the spec: a value is padded with zero bytes to a 4-byte boundary.\<close>

definition pad4 :: "nat \<Rightarrow> nat" where
  "pad4 n = (n + 3) div 4 * 4"

definition padding :: "nat \<Rightarrow> bytes" where
  "padding n = replicate (pad4 n - n) 0"

text \<open>
  Modelled from the spec: an IPv4 address AVP is the 2-byte address family 1 followed by
  the 4 address bytes. The scripts give the address as a dotted-decimal string.
\<close>

definition digit_val :: "char \<Rightarrow> nat option" where
  "digit_val c =
     (if 48 \<le> (of_char c :: nat) \<and> (of_char c :: nat) \<le> 57
      then Some (of_char c - 48) else None)"

fun decimal :: "nat \<Rightarrow> string \<Rightarrow> nat option" where
  "decimal acc [] = Some acc"
| "decimal acc (c # cs) =
     (case digit_val c of None \<Rightarrow> None | Some d \<Rightarrow> decimal (acc * 10 + d) cs)"

fun split_dots :: "string \<Rightarrow> string \<Rightarrow> string list" where
  "split_dots cur [] = [cur]"
| "split_dots cur (c # cs) =
     (if c = CHR ''.'' then cur # split_dots [] cs else split_dots (cur @ [c]) cs)"

definition octet :: "string \<Rightarrow> byte option" where
  "octet s =
     (if s = [] then None
      else case decimal 0 s of
             None \<Rightarrow> None
           | Some n \<Rightarrow> if n < 256 then Some (of_nat n) else None)"

definition ipv4_bytes :: "string \<Rightarrow> codec_error + bytes" where
  "ipv4_bytes s =
     (case map octet (split_dots [] s) of
        [Some a, Some b, Some c, Some d] \<Rightarrow> Inr [0, 1, a, b, c, d]
      | _ \<Rightarrow> Inl EncodeError)"

text \<open>
  Modelled from the spec: one AVP on the wire. 4-byte code, 1-byte flags (the
  vendor-specific bit 0x80 set exactly when a vendor id is present, the mandatory bit
  0x40), 3-byte length of header plus value without the padding, the 4-byte vendor id when
  there is one, the value, the padding.
\<close>

definition avp_bytes :: "bool \<Rightarrow> int \<Rightarrow> int \<Rightarrow> bytes \<Rightarrow> codec_error + bytes" where
  "avp_bytes m code vendor payload =
     (let v = (vendor \<noteq> 0);
          hs = (if v then 12 else 8);
          flags = (if v then 128 else 0) + (if m then 64 else 0)
      in and_then (to_bytes_big 4 code) (\<lambda>cb.
         and_then (to_bytes_big 3 (hs + int (length payload))) (\<lambda>lb.
         and_then (if v then to_bytes_big 4 vendor else Inr []) (\<lambda>vb.
           Inr (cb @ [flags] @ lb @ vb @ payload @ padding (length payload))))))"

text \<open>
  Modelled from the spec: the encoding of an AVP object. Numeric values are fixed-width
  big-endian integers (4 bytes for Unsigned32 and Enumerated, 8 for Unsigned64), octet
  strings are their bytes, strings their characters' bytes, a grouped AVP the
  concatenation of its members' encodings. Which AVPs carry the mandatory bit is the
  library dictionary's choice; the dictionary is the parameter \<open>mand\<close>.
\<close>

fun encode_avp :: "(int \<Rightarrow> int \<Rightarrow> bool) \<Rightarrow> avp \<Rightarrow> codec_error + bytes" where
  "encode_avp mand (Avp code vendor val) =
     and_then
       (case val of
          NoValue \<Rightarrow> Inr []
        | Unsigned32 n \<Rightarrow> to_bytes_big 4 n
        | Unsigned64 n \<Rightarrow> to_bytes_big 8 n
        | Enumerated n \<Rightarrow> to_bytes_big 4 n
        | OctetString bs \<Rightarrow> Inr bs
        | UTF8String s \<Rightarrow> Inr (ascii s)
        | Address s \<Rightarrow> ipv4_bytes s
        | Grouped xs \<Rightarrow> concat_all (map (encode_avp mand) xs))
       (avp_bytes (mand code vendor) code vendor)"

text \<open>The value bytes of an AVP object, as \<open>encode_avp\<close> computes them.\<close>

definition payload_of :: "(int \<Rightarrow> int \<Rightarrow> bool) \<Rightarrow> avp avp_value \<Rightarrow> codec_error + bytes" where
  "payload_of mand val =
     (case val of
        NoValue \<Rightarrow> Inr []
      | Unsigned32 n \<Rightarrow> to_bytes_big 4 n
      | Unsigned64 n \<Rightarrow> to_bytes_big 8 n
      | Enumerated n \<Rightarrow> to_bytes_big 4 n
      | OctetString bs \<Rightarrow> Inr bs
      | UTF8String s \<Rightarrow> Inr (ascii s)
      | Address s \<Rightarrow> ipv4_bytes s
      | Grouped xs \<Rightarrow> concat_all (map (encode_avp mand) xs))"

definition encode_avps :: "(int \<Rightarrow> int \<Rightarrow> bool) \<Rightarrow> avp list \<Rightarrow> codec_error + bytes" where
  "encode_avps mand xs = concat_all (map (encode_avp mand) xs)"

text \<open>
  Modelled from the spec: the 20-byte header. Version, 3-byte length, flags (request 0x80,
  proxyable 0x40, error 0x20, retransmit 0x10), 3-byte command code, application id,
  hop-by-hop id, end-to-end id.
\<close>

definition encode_header :: "header \<Rightarrow> codec_error + bytes" where
  "encode_header h =
     (let flags = (if is_request h then 128 else 0) + (if is_proxyable h then 64 else 0)
                + (if is_error h then 32 else 0) + (if is_retransmit h then 16 else 0)
      in and_then (to_bytes_big 1 (version h)) (\<lambda>vb.
         and_then (to_bytes_big 3 (header_length h)) (\<lambda>lb.
         and_then (to_bytes_big 3 (command_code h)) (\<lambda>cb.
         and_then (to_bytes_big 4 (application_id h)) (\<lambda>ab.
         and_then (to_bytes_big 4 (hop_by_hop_identifier h)) (\<lambda>hb.
         and_then (to_bytes_big 4 (end_to_end_identifier h)) (\<lambda>eb.
           Inr (vb @ lb @ [flags] @ cb @ ab @ hb @ eb))))))))"

text \<open>
  Modelled from the spec: \<open>encode(message)\<close> writes the header, with \<open>length\<close> computed from
  the total encoded size, followed by the AVP encodings in the order given. It returns the
  bytes and the header as the encoding leaves it.
\<close>

definition encode_message ::
  "(int \<Rightarrow> int \<Rightarrow> bool) \<Rightarrow> header \<Rightarrow> avp list \<Rightarrow> codec_error + (bytes \<times> header)" where
  "encode_message mand h avps =
     and_then (encode_avps mand avps) (\<lambda>body.
       let h = h\<lparr>header_length := 20 + int (length body)\<rparr> in
       and_then (encode_header h) (\<lambda>hb. Inr (hb @ body, h)))"

text \<open>
  Modelled from the spec: the AVP sequence of a Capabilities-Exchange-Request object, one
  AVP per attribute that has been assigned (RFC 6733: Origin-Host 264, Origin-Realm 296,
  Host-IP-Address 257, Vendor-Id 266, Product-Name 269, Origin-State-Id 278,
  Auth-Application-Id 258, Inband-Security-Id 299, Acct-Application-Id 259,
  Firmware-Revision 267), then the appended AVPs in insertion order. An attribute that was
  never assigned contributes no AVP.
\<close>

definition opt_avp :: "int \<Rightarrow> ('a \<Rightarrow> avp avp_value) \<Rightarrow> 'a option \<Rightarrow> avp list" where
  "opt_avp code mk x = (case x of None \<Rightarrow> [] | Some v \<Rightarrow> [Avp code 0 (mk v)])"

definition cer_avps :: "cer \<Rightarrow> avp list" where
  "cer_avps c =
     opt_avp 264 OctetString (origin_host c)
     @ opt_avp 296 OctetString (origin_realm c)
     @ opt_avp 257 Address (host_ip_address c)
     @ opt_avp 266 Unsigned32 (vendor_id c)
     @ opt_avp 269 UTF8String (product_name c)
     @ opt_avp 278 Unsigned32 (origin_state_id c)
     @ opt_avp 258 Unsigned32 (auth_application_id c)
     @ opt_avp 299 Unsigned32 (inband_security_id c)
     @ opt_avp 259 Unsigned32 (acct_application_id c)
     @ opt_avp 267 Unsigned32 (firmware_revision c)
     @ additional_avps c"

definition as_bytes :: "(int \<Rightarrow> int \<Rightarrow> bool) \<Rightarrow> cer \<Rightarrow> codec_error + (bytes \<times> cer)" where
  "as_bytes mand c =
     and_then (encode_message mand (header c) (cer_avps c))
       (\<lambda>(bs, h). Inr (bs, c\<lparr>header := h\<rparr>))"

text \<open>
  Modelled from the spec: decoding. An AVP is read off the front of the buffer: code,
  flags, length, the vendor id when the vendor bit is set, the value up to the declared
  length; the next AVP starts after the padding. A declared length shorter than the AVP
  header or longer than what is left is \<open>MalformedAvp\<close>. The decoded AVP keeps its value as
  bytes.
\<close>

datatype raw_avp =
  RawAvp (raw_code: nat) (raw_vendor: "nat option") (raw_mandatory: bool)
    (raw_protected: bool) (raw_payload: bytes)

function decode_avps :: "bytes \<Rightarrow> codec_error + raw_avp list" where
  "decode_avps bs =
     (if bs = [] then Inr []
      else if length bs < 8 then Inl MalformedAvp
      else
        let code = from_bytes_big (py_slice 0 4 bs);
            flags = bs ! 4;
            len = from_bytes_big (py_slice 5 8 bs);
            v = bit flags 7;
            hs = (if v then 12 else 8)
        in if len < hs \<or> length bs < len then Inl MalformedAvp
           else
             let vendor = (if v then Some (from_bytes_big (py_slice 8 12 bs)) else None);
                 a = RawAvp code vendor (bit flags 6) (bit flags 5) (py_slice hs len bs)
             in case decode_avps (drop (pad4 len) bs) of
                  Inl e \<Rightarrow> Inl e
                | Inr as \<Rightarrow> Inr (a # as))"
  by pat_completeness auto
termination
proof (relation "measure length")
  fix bs :: bytes and code flags len v hs
  assume "bs \<noteq> []" and "\<not> length bs < 8" and "len = from_bytes_big (py_slice 5 8 bs)"
    and "hs = (if v then 12 else 8)" and "\<not> (len < hs \<or> length bs < len)"
  then have "0 < pad4 len"
    by (auto simp: pad4_def split: if_splits)
  with \<open>bs \<noteq> []\<close> show "(drop (pad4 len) bs, bs) \<in> measure length"
    by simp
qed simp

text \<open>
  Modelled from the spec: \<open>decode(bytes)\<close> parses the header, then decodes AVPs until
  \<open>length\<close> bytes are consumed. Fewer bytes than \<open>length\<close> claims is \<open>TruncatedMessage\<close>; an
  AVP that does not fit the declared message is \<open>MalformedMessage\<close>.
\<close>

definition decode_header :: "bytes \<Rightarrow> header" where
  "decode_header bs =
     \<lparr>version = int (from_bytes_big (py_slice 0 1 bs)),
      command_code = int (from_bytes_big (py_slice 5 8 bs)),
      application_id = int (from_bytes_big (py_slice 8 12 bs)),
      is_request = bit (bs ! 4) 7,
      is_proxyable = bit (bs ! 4) 6,
      is_error = bit (bs ! 4) 5,
      is_retransmit = bit (bs ! 4) 4,
      hop_by_hop_identifier = int (from_bytes_big (py_slice 12 16 bs)),
      end_to_end_identifier = int (from_bytes_big (py_slice 16 20 bs)),
      header_length = int (from_bytes_big (py_slice 1 4 bs))\<rparr>"

definition from_bytes :: "bytes \<Rightarrow> codec_error + (header \<times> raw_avp list)" where
  "from_bytes bs =
     (if length bs < 20 then Inl TruncatedMessage
      else
        let h = decode_header bs;
            len = from_bytes_big (py_slice 1 4 bs)
        in if length bs < len then Inl TruncatedMessage
           else if len < 20 then Inl MalformedMessage
           else case decode_avps (py_slice 20 len bs) of
                  Inl e \<Rightarrow> Inl MalformedMessage
                | Inr avps \<Rightarrow> Inr (h, avps))"

text \<open>
  Modelled from the spec: the command's accessors are views over the AVP sequence. The
  Unsigned32 values of the AVPs with a given code and no vendor, in order; the two that
  the Capabilities-Exchange properties read.
\<close>

definition u32_values :: "nat \<Rightarrow> raw_avp list \<Rightarrow> nat list" where
  "u32_values code avps =
     map (\<lambda>a. from_bytes_big (raw_payload a))
       (filter (\<lambda>a. raw_code a = code \<and> raw_vendor a = None \<and> length (raw_payload a) = 4) avps)"

definition supported_vendor_id :: "raw_avp list \<Rightarrow> nat list" where
  "supported_vendor_id avps = u32_values 265 avps"

definition decoded_inband_security_id :: "raw_avp list \<Rightarrow> nat list" where
  "decoded_inband_security_id avps = u32_values 299 avps"

text \<open>
  What decoding is expected to give back for an AVP object: its code, its vendor id when it
  has one, the mandatory bit the dictionary gives it, and its value bytes.
\<close>

definition raw_of :: "(int \<Rightarrow> int \<Rightarrow> bool) \<Rightarrow> avp \<Rightarrow> raw_avp" where
  "raw_of mand a =
     RawAvp (nat (avp_code a))
       (if avp_vendor_id a = 0 then None else Some (nat (avp_vendor_id a)))
       (mand (avp_code a) (avp_vendor_id a)) False
       (case payload_of mand (avp_val a) of Inl e \<Rightarrow> [] | Inr p \<Rightarrow> p)"

text \<open>
  Encoding a request object and decoding the bytes back, and the AVP sequence of the
  decoded message when both steps succeed.
\<close>

definition encode_decode ::
  "(int \<Rightarrow> int \<Rightarrow> bool) \<Rightarrow> cer \<Rightarrow> codec_error + (header \<times> raw_avp list)" where
  "encode_decode mand c = and_then (as_bytes mand c) (\<lambda>(bs, c'). from_bytes bs)"

definition decoded_avps :: "codec_error + (header \<times> raw_avp list) \<Rightarrow> raw_avp list option" where
  "decoded_avps r = (case r of Inl e \<Rightarrow> None | Inr (h, avps) \<Rightarrow> Some avps)"

text \<open>A dictionary for the worked runs: every AVP carries the mandatory bit.\<close>

definition all_mandatory :: "int \<Rightarrow> int \<Rightarrow> bool" where
  "all_mandatory code vendor = True"

section \<open>Properties of the stream framer\<close>

declare read_header.simps [simp del] read_body.simps [simp del]

lemma strip_0 [simp]: "strip 0 cs = cs"
  by (cases cs) simp_all

lemma strip_no_empty: "[] \<notin> set cs \<Longrightarrow> [] \<notin> set (strip n cs)"
  by (induction cs arbitrary: n) auto

lemma concat_strip: "concat (strip n cs) = drop n (concat cs)"
  by (induction cs arbitrary: n) auto


lemma read_header_ok:
  "[] \<notin> set cs \<Longrightarrow> length hdr + n = 20 \<Longrightarrow> n \<le> length (concat cs) \<Longrightarrow>
   read_header (cs @ rest) hdr = Inr (hdr @ take n (concat cs), strip n cs @ rest)"
proof (induction cs arbitrary: hdr n)
  case Nil
  then show ?case
    by (subst read_header.simps) simp
next
  case (Cons c cs)
  show ?case
  proof (cases "n = 0")
    case True
    with Cons.prems show ?thesis
      by (subst read_header.simps) simp
  next
    case False
    from Cons.prems have c: "c \<noteq> []" and cs: "[] \<notin> set cs"
      by auto
    from False Cons.prems have need: "20 - length hdr = n" and lt: "length hdr < 20"
      by auto
    show ?thesis
    proof (cases "length c \<le> n")
      case True
      have "read_header (cs @ rest) (hdr @ c)
              = Inr ((hdr @ c) @ take (n - length c) (concat cs), strip (n - length c) cs @ rest)"
        using Cons.prems True cs by (intro Cons.IH) auto
      with True False c need lt show ?thesis
        by (subst read_header.simps) simp
    next
      case gt: False
      then have "read_header (drop n c # cs @ rest) (hdr @ take n c)
                   = Inr (hdr @ take n c, drop n c # cs @ rest)"
        using Cons.prems by (subst read_header.simps) simp
      with gt False c need lt show ?thesis
        by (subst read_header.simps) simp
    qed
  qed
qed

lemma read_header_closed:
  "[] \<notin> set cs \<Longrightarrow> rest = [] \<or> hd rest = [] \<Longrightarrow> length hdr + length (concat cs) < 20 \<Longrightarrow>
   read_header (cs @ rest) hdr = Inl (ConnectionError ''Socket closed while reading Diameter header'')"
proof (induction cs arbitrary: hdr)
  case Nil
  then show ?case
    by (subst read_header.simps) (cases rest; auto)
next
  case (Cons c cs)
  then have "read_header (cs @ rest) (hdr @ c) = Inl (ConnectionError ''Socket closed while reading Diameter header'')"
    by (intro Cons.IH) auto
  with Cons.prems show ?case
    by (subst read_header.simps) auto
qed

lemma read_body_ok:
  "[] \<notin> set cs \<Longrightarrow> int (length body) + int n = max 0 (total_len - 20) \<Longrightarrow> n \<le> length (concat cs) \<Longrightarrow>
   read_body (cs @ rest) total_len body = Inr (body @ take n (concat cs), strip n cs @ rest)"
proof (induction cs arbitrary: body n)
  case Nil
  then show ?case
    by (subst read_body.simps) simp
next
  case (Cons c cs)
  show ?case
  proof (cases "n = 0")
    case True
    with Cons.prems show ?thesis
      by (subst read_body.simps) simp
  next
    case False
    from Cons.prems have c: "c \<noteq> []" and cs: "[] \<notin> set cs"
      by auto
    from False Cons.prems have need: "nat (total_len - 20 - int (length body)) = n"
      and lt: "int (length body) < total_len - 20"
      by auto
    show ?thesis
    proof (cases "length c \<le> n")
      case True
      have "read_body (cs @ rest) total_len (body @ c)
              = Inr ((body @ c) @ take (n - length c) (concat cs), strip (n - length c) cs @ rest)"
        using Cons.prems True cs by (intro Cons.IH) auto
      with True False c need lt show ?thesis
        by (subst read_body.simps) simp
    next
      case gt: False
      then have "read_body (drop n c # cs @ rest) total_len (body @ take n c)
                   = Inr (body @ take n c, drop n c # cs @ rest)"
        using Cons.prems by (subst read_body.simps) auto
      with gt False c need lt show ?thesis
        by (subst read_body.simps) simp
    qed
  qed
qed

lemma read_body_closed:
  "[] \<notin> set cs \<Longrightarrow> rest = [] \<or> hd rest = [] \<Longrightarrow>
   int (length body) + int (length (concat cs)) < total_len - 20 \<Longrightarrow>
   read_body (cs @ rest) total_len body = Inl (ConnectionError ''Socket closed while reading Diameter body'')"
proof (induction cs arbitrary: body)
  case Nil
  then show ?case
    by (subst read_body.simps) (cases rest; auto)
next
  case (Cons c cs)
  then have "read_body (cs @ rest) total_len (body @ c) = Inl (ConnectionError ''Socket closed while reading Diameter body'')"
    by (intro Cons.IH) auto
  with Cons.prems show ?case
    by (subst read_body.simps) auto
qed

lemma slice_take: "j \<le> k \<Longrightarrow> py_slice i j (take k bs) = py_slice i j bs"
  by (simp add: py_slice_def drop_take min_def)

lemma sock_split:
  "s = takeWhile (\<lambda>c. c \<noteq> []) s @ dropWhile (\<lambda>c. c \<noteq> []) s"
  "[] \<notin> set (takeWhile (\<lambda>c. c \<noteq> []) s)"
  "dropWhile (\<lambda>c. c \<noteq> []) s = [] \<or> hd (dropWhile (\<lambda>c. c \<noteq> []) s) = []"
proof -
  show "s = takeWhile (\<lambda>c. c \<noteq> []) s @ dropWhile (\<lambda>c. c \<noteq> []) s"
    by simp
  show "[] \<notin> set (takeWhile (\<lambda>c. c \<noteq> []) s)"
    by (auto dest: set_takeWhileD)
  show "dropWhile (\<lambda>c. c \<noteq> []) s = [] \<or> hd (dropWhile (\<lambda>c. c \<noteq> []) s) = []"
    using hd_dropWhile [of "\<lambda>c. c \<noteq> []" s] by auto
qed

lemma read_header_avail_closed:
  assumes "length (avail s) < 20"
  shows "read_header s [] = Inl (ConnectionError ''Socket closed while reading Diameter header'')"
proof -
  have "read_header (takeWhile (\<lambda>c. c \<noteq> []) s @ dropWhile (\<lambda>c. c \<noteq> []) s) []
          = Inl (ConnectionError ''Socket closed while reading Diameter header'')"
    using assms sock_split(2,3) [of s] by (intro read_header_closed) (simp_all add: avail_def)
  then show ?thesis by simp
qed

lemma read_header_avail_ok:
  assumes "20 \<le> length (avail s)"
  shows "read_header s [] = Inr (take 20 (avail s), rest_after 20 s)"
proof -
  have "read_header (takeWhile (\<lambda>c. c \<noteq> []) s @ dropWhile (\<lambda>c. c \<noteq> []) s) []
          = Inr ([] @ take 20 (concat (takeWhile (\<lambda>c. c \<noteq> []) s)),
                 strip 20 (takeWhile (\<lambda>c. c \<noteq> []) s) @ dropWhile (\<lambda>c. c \<noteq> []) s)"
    using assms sock_split(2) [of s] by (intro read_header_ok) (simp_all add: avail_def)
  then show ?thesis by (simp add: avail_def rest_after_def)
qed

lemma read_body_avail_closed:
  assumes "20 \<le> length (avail s)" and "int (length (avail s)) < total_len"
  shows "read_body (rest_after 20 s) total_len []
           = Inl (ConnectionError ''Socket closed while reading Diameter body'')"
  unfolding rest_after_def
proof (rule read_body_closed)
  show "[] \<notin> set (strip 20 (takeWhile (\<lambda>c. c \<noteq> []) s))"
    using sock_split(2) [of s] by (rule strip_no_empty)
  show "dropWhile (\<lambda>c. c \<noteq> []) s = [] \<or> hd (dropWhile (\<lambda>c. c \<noteq> []) s) = []"
    by (rule sock_split(3))
  show "int (length ([] :: bytes)) + int (length (concat (strip 20 (takeWhile (\<lambda>c. c \<noteq> []) s))))
          < total_len - 20"
    using assms by (simp add: concat_strip avail_def)
qed

lemma strip_strip: "[] \<notin> set cs \<Longrightarrow> strip m (strip n cs) = strip (n + m) cs"
proof (induction cs arbitrary: n m)
  case Nil
  then show ?case by simp
next
  case (Cons c cs)
  then have "c \<noteq> []" by auto
  with Cons show ?case
    by (cases "n = 0") (auto simp: not_le add.commute)
qed

lemma read_body_avail_ok:
  assumes "20 \<le> length (avail s)" and "total_len \<le> int (length (avail s))"
  shows "read_body (rest_after 20 s) total_len []
           = Inr (take (nat (total_len - 20)) (drop 20 (avail s)),
                  rest_after (20 + nat (total_len - 20)) s)"
proof -
  let ?cs = "takeWhile (\<lambda>c. c \<noteq> []) s" and ?rest = "dropWhile (\<lambda>c. c \<noteq> []) s"
  have ne: "[] \<notin> set ?cs"
    by (rule sock_split(2))
  have "read_body (strip 20 ?cs @ ?rest) total_len []
          = Inr ([] @ take (nat (total_len - 20)) (concat (strip 20 ?cs)),
                 strip (nat (total_len - 20)) (strip 20 ?cs) @ ?rest)"
  proof (rule read_body_ok)
    show "[] \<notin> set (strip 20 ?cs)"
      using ne by (rule strip_no_empty)
    show "int (length ([] :: bytes)) + int (nat (total_len - 20)) = max 0 (total_len - 20)"
      by simp
    show "nat (total_len - 20) \<le> length (concat (strip 20 ?cs))"
      using assms by (simp add: concat_strip avail_def)
  qed
  then show ?thesis
    using ne by (simp add: rest_after_def concat_strip avail_def strip_strip)
qed

lemma recv_one_diameter_cases:
  "recv_one_diameter s =
     (if length (avail s) < 20 then
        Inl (ConnectionError ''Socket closed while reading Diameter header'')
      else if length (avail s) < from_bytes_big (py_slice 1 4 (avail s)) then
        Inl (ConnectionError ''Socket closed while reading Diameter body'')
      else Inr (take (max 20 (from_bytes_big (py_slice 1 4 (avail s)))) (avail s),
                rest_after (max 20 (from_bytes_big (py_slice 1 4 (avail s)))) s))"
proof (cases "length (avail s) < 20")
  case True
  then show ?thesis
    by (simp add: recv_one_diameter_def read_header_avail_closed)
next
  case False
  then have ge: "20 \<le> length (avail s)" by simp
  let ?L = "from_bytes_big (py_slice 1 4 (avail s))"
  have hdr: "read_header s [] = Inr (take 20 (avail s), rest_after 20 s)"
    using ge by (rule read_header_avail_ok)
  have L: "from_bytes_big (py_slice 1 4 (take 20 (avail s))) = ?L"
    by (simp add: slice_take)
  show ?thesis
  proof (cases "length (avail s) < ?L")
    case True
    then have "read_body (rest_after 20 s) (int ?L) []
                 = Inl (ConnectionError ''Socket closed while reading Diameter body'')"
      using ge by (intro read_body_avail_closed) simp_all
    with True False hdr L show ?thesis
      by (simp add: recv_one_diameter_def)
  next
    case enough: False
    then have "read_body (rest_after 20 s) (int ?L) []
                 = Inr (take (nat (int ?L - 20)) (drop 20 (avail s)),
                        rest_after (20 + nat (int ?L - 20)) s)"
      using ge by (intro read_body_avail_ok) simp_all
    moreover have eq: "20 + nat (int ?L - 20) = max 20 ?L"
      by simp
    moreover have "take 20 (avail s) @ take (nat (int ?L - 20)) (drop 20 (avail s))
                     = take (max 20 ?L) (avail s)"
      unfolding eq [symmetric] by (simp only: take_add)
    ultimately show ?thesis
      using enough False hdr L by (simp add: recv_one_diameter_def)
  qed
qed


text \<open>
  Claim C6. \<open>recv_one_diameter\<close> raises \<open>ConnectionError\<close> exactly when the stream runs
  dry (a \<open>recv\<close> returns no bytes) too early: with the header message when fewer than 20
  bytes arrive, with the body message when the header arrives but fewer bytes than it
  declares. The result is then the error alone (\<open>Inl\<close>): no bytes are returned.
\<close>

theorem recv_one_diameter_error_iff:
  "(recv_one_diameter s = Inl (ConnectionError ''Socket closed while reading Diameter header''))
     = (length (avail s) < 20)
 \<and> (recv_one_diameter s = Inl (ConnectionError ''Socket closed while reading Diameter body''))
     = (20 \<le> length (avail s) \<and> length (avail s) < from_bytes_big (py_slice 1 4 (take 20 (avail s))))
 \<and> (\<exists>e. recv_one_diameter s = Inl e)
     = (length (avail s) < 20 \<or> length (avail s) < from_bytes_big (py_slice 1 4 (take 20 (avail s))))"
  by (simp add: recv_one_diameter_cases slice_take)

text \<open>
  Claim C10. When the 20 header bytes arrive and declare a length of 20 or less, the body
  loop does not read (it returns no bytes and leaves the socket as the header loop left
  it) and \<open>recv_one_diameter\<close> returns the 20 header bytes, with no error.
\<close>

theorem recv_one_diameter_short_length:
  assumes "20 \<le> length (avail s)"
    and "from_bytes_big (py_slice 1 4 (take 20 (avail s))) \<le> 20"
  shows "read_header s [] = Inr (take 20 (avail s), rest_after 20 s)
       \<and> read_body (rest_after 20 s) (int (from_bytes_big (py_slice 1 4 (take 20 (avail s))))) []
           = Inr ([], rest_after 20 s)
       \<and> recv_one_diameter s = Inr (take 20 (avail s), rest_after 20 s)"
proof -
  have "read_body (rest_after 20 s) (int (from_bytes_big (py_slice 1 4 (take 20 (avail s))))) []
          = Inr ([], rest_after 20 s)"
    using assms(2) by (subst read_body.simps) simp
  moreover have "max 20 (from_bytes_big (py_slice 1 4 (avail s))) = 20"
    using assms(2) by (simp add: slice_take)
  ultimately show ?thesis
    using assms(1) by (simp add: read_header_avail_ok recv_one_diameter_cases)
qed


theorem recv_one_diameter_error_iff_witness:
  "recv_one_diameter [[1, 0, 0, 32, 128, 0, 1], [1, 0, 0]]
     = Inl (ConnectionError ''Socket closed while reading Diameter header'')
 \<and> recv_one_diameter [[1, 0, 0, 32, 128, 0, 1, 1, 0, 0, 0, 0, 0, 0, 0, 1, 0, 0, 0, 2, 0, 0, 1, 12], [64]]
     = Inl (ConnectionError ''Socket closed while reading Diameter body'')"
  using recv_one_diameter_error_iff [of "[[1, 0, 0, 32, 128, 0, 1], [1, 0, 0]]"]
    recv_one_diameter_error_iff
      [of "[[1, 0, 0, 32, 128, 0, 1, 1, 0, 0, 0, 0, 0, 0, 0, 1, 0, 0, 0, 2, 0, 0, 1, 12], [64]]"]
  by (simp add: avail_def from_bytes_big_def py_slice_def)

theorem recv_one_diameter_short_length_witness:
  "recv_one_diameter [[1, 0, 0, 8, 128, 0, 1, 1, 0, 0, 0, 0, 0, 0, 0, 1, 0, 0, 0, 2, 5, 5], [6]]
     = Inr ([1, 0, 0, 8, 128, 0, 1, 1, 0, 0, 0, 0, 0, 0, 0, 1, 0, 0, 0, 2], [[5, 5], [6]])"
  using recv_one_diameter_short_length
    [of "[[1, 0, 0, 8, 128, 0, 1, 1, 0, 0, 0, 0, 0, 0, 0, 1, 0, 0, 0, 2, 5, 5], [6]]"]
  by (simp add: avail_def rest_after_def from_bytes_big_def py_slice_def)

section \<open>Properties of the credit-control scripts\<close>

lemmas const_defs =
  APP_DIAMETER_CREDIT_CONTROL_APPLICATION_def E_CC_REQUEST_TYPE_INITIAL_REQUEST_def
  E_CC_REQUEST_TYPE_UPDATE_REQUEST_def E_CC_REQUEST_TYPE_TERMINATION_REQUEST_def
  VENDOR_TGPP_def AVP_TGPP_3GPP_REPORTING_REASON_def AVP_MULTIPLE_SERVICES_INDICATOR_def
  AVP_TGPP_SERVICE_INFORMATION_def AVP_TGPP_PS_INFORMATION_def

lemma and_then_Inr [simp]: "and_then (Inr x) f = f x"
  by (simp add: and_then_def)

lemma and_then_Inl [simp]: "and_then (Inl e) f = Inl e"
  by (simp add: and_then_def)

lemma and_then_eq_Inr:
  "and_then r f = Inr y \<longleftrightarrow> (\<exists>x. r = Inr x \<and> f x = Inr y)"
  by (cases r) simp_all

lemma build_mscc_Inr:
  assumes "0 \<le> req" and "req < 2 ^ 64" and "0 \<le> t" and "t < 2 ^ 64"
    and "- (2 ^ 31) \<le> rr" and "rr < 2 ^ 31"
  shows "build_mscc req t rr
     = Inr (Avp 456 0 (Grouped
         [Avp 437 0 (Grouped [Avp 421 0 (Unsigned64 req)]),
          Avp 446 0 (Grouped
            [Avp 421 0 (Unsigned64 t),
             Avp 412 0 (Unsigned64 (t div 4)),
             Avp 414 0 (Unsigned64 (t - t div 4))]),
          Avp 432 0 (Unsigned32 RATING_GROUP),
          Avp AVP_TGPP_3GPP_REPORTING_REASON VENDOR_TGPP (Enumerated rr)]))"
proof -
  from assms(3,4) have "0 \<le> t div 4" and "t div 4 < 2 ^ 64"
    and "0 \<le> t - t div 4" and "t - t div 4 < 2 ^ 64"
    by simp_all
  with assms show ?thesis
    by (simp add: build_mscc_def split_in_out_def Avp_new_def fits_def Let_def RATING_GROUP_def)
qed

lemma build_mscc_out_of_range:
  assumes "t < 0 \<or> 2 ^ 64 \<le> t"
  shows "build_mscc req t rr = Inl AvpEncodeError"
proof -
  from assms have "\<not> fits (Unsigned64 t)"
    by (auto simp: fits_def)
  then show ?thesis
    by (simp add: build_mscc_def split_in_out_def Avp_new_def Let_def)
qed

text \<open>
  Claim C8, as the code has it. \<open>split_in_out\<close> is a function of \<open>total\<close> whose two results
  add up to it, for every integer. For \<open>0 \<le> total < 2^64\<close>, and a requested amount and a
  reporting reason that \<open>Avp.new\<close> accepts, \<open>build_mscc\<close> returns an MSCC whose
  Used-Service-Unit group (446) holds exactly CC-Total-Octets (421) = total,
  CC-Input-Octets (412) = input and CC-Output-Octets (414) = output. For a total outside
  that range \<open>build_mscc\<close> raises \<open>AvpEncodeError\<close> and builds nothing.
\<close>

theorem split_in_out_mscc:
  "fst (split_in_out t) + snd (split_in_out t) = t
 \<and> (0 \<le> t \<and> t < 2 ^ 64 \<and> 0 \<le> req \<and> req < 2 ^ 64 \<and> - (2 ^ 31) \<le> rr \<and> rr < 2 ^ 31 \<longrightarrow>
      map_sum id (\<lambda>m. map_option children (find_avp 446 0 (children m))) (build_mscc req t rr)
        = Inr (Some [Avp 421 0 (Unsigned64 t),
                     Avp 412 0 (Unsigned64 (fst (split_in_out t))),
                     Avp 414 0 (Unsigned64 (snd (split_in_out t)))]))
 \<and> (t < 0 \<or> 2 ^ 64 \<le> t \<longrightarrow> build_mscc req t rr = Inl AvpEncodeError)"
proof (intro conjI impI)
  show "fst (split_in_out t) + snd (split_in_out t) = t"
    by (simp add: split_in_out_def Let_def)
next
  assume "0 \<le> t \<and> t < 2 ^ 64 \<and> 0 \<le> req \<and> req < 2 ^ 64 \<and> - (2 ^ 31) \<le> rr \<and> rr < 2 ^ 31"
  then have "build_mscc req t rr
     = Inr (Avp 456 0 (Grouped
         [Avp 437 0 (Grouped [Avp 421 0 (Unsigned64 req)]),
          Avp 446 0 (Grouped
            [Avp 421 0 (Unsigned64 t),
             Avp 412 0 (Unsigned64 (t div 4)),
             Avp 414 0 (Unsigned64 (t - t div 4))]),
          Avp 432 0 (Unsigned32 RATING_GROUP),
          Avp AVP_TGPP_3GPP_REPORTING_REASON VENDOR_TGPP (Enumerated rr)]))"
    by (intro build_mscc_Inr) simp_all
  then show "map_sum id (\<lambda>m. map_option children (find_avp 446 0 (children m)))
        (build_mscc req t rr)
        = Inr (Some [Avp 421 0 (Unsigned64 t),
                     Avp 412 0 (Unsigned64 (fst (split_in_out t))),
                     Avp 414 0 (Unsigned64 (snd (split_in_out t)))])"
    by (simp add: split_in_out_def children_def find_avp_def Let_def)
next
  assume "t < 0 \<or> 2 ^ 64 \<le> t"
  then show "build_mscc req t rr = Inl AvpEncodeError"
    by (rule build_mscc_out_of_range)
qed

theorem split_in_out_mscc_witness:
  "split_in_out 512000 = (128000, 384000)
 \<and> map_sum id (\<lambda>m. map_option children (find_avp 446 0 (children m)))
      (build_mscc 512000 512000 3)
     = Inr (Some [Avp 421 0 (Unsigned64 512000),
                  Avp 412 0 (Unsigned64 128000),
                  Avp 414 0 (Unsigned64 384000)])
 \<and> build_mscc 512000 (- 1) 3 = Inl AvpEncodeError"
  using split_in_out_mscc [of 512000 512000 3] split_in_out_mscc [of "- 1" 512000 3]
  by (simp add: split_in_out_def Let_def)

text \<open>
  The claim as stated fails: \<open>2^64\<close> is a non-negative total, and for it \<open>build_mscc\<close>
  raises \<open>AvpEncodeError\<close>, so there is no MSCC and no Used-Service-Unit group.
\<close>

theorem split_in_out_mscc_counterexample:
  "(0 :: int) \<le> 18446744073709551616
 \<and> build_mscc DEFAULT_OCTETS 18446744073709551616 3 = Inl AvpEncodeError"
  by (simp add: build_mscc_def split_in_out_def Avp_new_def fits_def DEFAULT_OCTETS_def Let_def)

declare usage_loop.simps [simp del]

lemma usage_loop_exhausted:
  "DEFAULT_OCTETS \<le> u \<Longrightarrow> usage_loop el i u tr = (u, QuotaExhausted, tr)"
  by (subst usage_loop.simps) simp

lemma usage_loop_expired:
  "u < DEFAULT_OCTETS \<Longrightarrow> VALIDITY_SECONDS \<le> el i \<Longrightarrow>
   usage_loop el i u tr = (u, ValidityExpired, tr)"
  by (subst usage_loop.simps) simp

lemma usage_loop_step:
  "u < DEFAULT_OCTETS \<Longrightarrow> el i < VALIDITY_SECONDS \<Longrightarrow>
   usage_loop el i u tr
     = usage_loop el (Suc i) (min DEFAULT_OCTETS (u + SIM_STEP_BYTES))
         (tr @ [min DEFAULT_OCTETS (u + SIM_STEP_BYTES)])"
  by (subst usage_loop.simps) (simp add: Let_def)

lemma stepwise_snoc:
  "stepwise tr \<Longrightarrow> tr \<noteq> [] \<Longrightarrow> b = min DEFAULT_OCTETS (last tr + SIM_STEP_BYTES) \<Longrightarrow>
   stepwise (tr @ [b])"
  by (induction tr rule: stepwise.induct) auto

lemma sorted_le_last: "sorted xs \<Longrightarrow> x \<in> set xs \<Longrightarrow> x \<le> (last xs :: int)"
  by (induction xs) (auto split: if_splits)

lemma usage_loop_invariant:
  "tr \<noteq> [] \<Longrightarrow> last tr = u \<Longrightarrow> sorted tr \<Longrightarrow> list_all (\<lambda>v. v \<le> DEFAULT_OCTETS) tr \<Longrightarrow>
   stepwise tr \<Longrightarrow> usage_loop el i u tr = (u', ex, tr') \<Longrightarrow>
   last tr' = u' \<and> sorted tr' \<and> list_all (\<lambda>v. v \<le> DEFAULT_OCTETS) tr' \<and> stepwise tr'
   \<and> take (length tr) tr' = tr"
proof (induction el i u tr rule: usage_loop.induct)
  case (1 el i u tr)
  show ?case
  proof (cases "DEFAULT_OCTETS \<le> u \<or> VALIDITY_SECONDS \<le> el i")
    case True
    have "usage_loop el i u tr = (u, QuotaExhausted, tr)
             \<or> usage_loop el i u tr = (u, ValidityExpired, tr)"
    proof (cases "DEFAULT_OCTETS \<le> u")
      case True
      then show ?thesis by (simp add: usage_loop_exhausted)
    next
      case False
      with \<open>DEFAULT_OCTETS \<le> u \<or> VALIDITY_SECONDS \<le> el i\<close> show ?thesis
        by (simp add: usage_loop_expired)
    qed
    with "1.prems" show ?thesis
      by auto
  next
    case False
    let ?u = "min DEFAULT_OCTETS (u + SIM_STEP_BYTES)"
    from False have lt: "u < DEFAULT_OCTETS" and nv: "\<not> VALIDITY_SECONDS \<le> el i"
      by auto
    have step: "usage_loop el (Suc i) ?u (tr @ [?u]) = (u', ex, tr')"
      using "1.prems"(6) lt nv by (simp add: usage_loop_step)
    have ge: "u \<le> ?u"
      using lt by (simp add: SIM_STEP_BYTES_def)
    have srt: "sorted (tr @ [?u])"
      using "1.prems"(1,2,3) ge by (auto simp: sorted_append dest: sorted_le_last)
    have "last tr' = u' \<and> sorted tr' \<and> list_all (\<lambda>v. v \<le> DEFAULT_OCTETS) tr' \<and> stepwise tr'
            \<and> take (length (tr @ [?u])) tr' = tr @ [?u]"
    proof (rule "1.IH" [OF refl _ _ refl _ _ srt _ _ step])
      show "\<not> DEFAULT_OCTETS \<le> u" using lt by simp
      show "\<not> VALIDITY_SECONDS \<le> el i" by (rule nv)
      show "tr @ [?u] \<noteq> []" by simp
      show "last (tr @ [?u]) = ?u" by simp
      show "list_all (\<lambda>v. v \<le> DEFAULT_OCTETS) (tr @ [?u])"
        using "1.prems"(4) by simp
      show "stepwise (tr @ [?u])"
        using "1.prems"(1,2,5) by (intro stepwise_snoc) simp_all
    qed
    moreover have "take (length tr) tr' = tr" if "take (length (tr @ [?u])) tr' = tr @ [?u]"
    proof -
      have "take (length tr) (take (length (tr @ [?u])) tr') = take (length tr) tr'"
        by (simp add: min_def)
      with that show ?thesis by simp
    qed
    ultimately show ?thesis by blast
  qed
qed

lemma usage_loop_range:
  assumes "usage_loop el 0 0 [0] = (u, ex, tr)"
  shows "0 \<le> u" and "u \<le> DEFAULT_OCTETS"
proof -
  have inv: "last tr = u \<and> sorted tr \<and> list_all (\<lambda>v. v \<le> DEFAULT_OCTETS) tr \<and> stepwise tr
          \<and> take (length [0 :: int]) tr = [0]"
    by (rule usage_loop_invariant [OF _ _ _ _ _ assms]) (simp_all add: DEFAULT_OCTETS_def)
  then have tr: "tr \<noteq> []" and hd: "hd tr = 0"
    by (cases tr; simp)+
  from inv tr have "u \<in> set tr"
    by auto
  with inv show "u \<le> DEFAULT_OCTETS"
    by (auto simp: list_all_iff)
  from inv tr hd have "hd tr \<le> last tr"
    by (cases tr) (auto dest: sorted_le_last)
  with inv hd show "0 \<le> u"
    by simp
qed

lemma usage_loop_fst_range:
  "0 \<le> fst (usage_loop el 0 0 [0])" "fst (usage_loop el 0 0 [0]) \<le> DEFAULT_OCTETS"
  using usage_loop_range [of el "fst (usage_loop el 0 0 [0])"
      "fst (snd (usage_loop el 0 0 [0]))" "snd (snd (usage_loop el 0 0 [0]))"]
  by simp_all

lemma DEFAULT_OCTETS_nonneg: "0 \<le> DEFAULT_OCTETS"
  by (simp add: DEFAULT_OCTETS_def)

text \<open>
  Claim C9. In the usage loop of \<open>main\<close>, started as \<open>main\<close> starts it (\<open>used_total = 0\<close>),
  the values \<open>used_total\<close> takes begin with 0, never decrease, never exceed
  \<open>DEFAULT_OCTETS\<close>, each is \<open>min(DEFAULT_OCTETS, previous + SIM_STEP_BYTES)\<close>, and the
  last of them is the value the loop ends with.
\<close>

theorem used_total_monotone:
  assumes "usage_loop el 0 0 [0] = (u, ex, tr)"
  shows "hd tr = 0 \<and> sorted tr \<and> list_all (\<lambda>v. v \<le> DEFAULT_OCTETS) tr \<and> stepwise tr
       \<and> last tr = u"
proof -
  have inv: "last tr = u \<and> sorted tr \<and> list_all (\<lambda>v. v \<le> DEFAULT_OCTETS) tr \<and> stepwise tr
          \<and> take (length [0 :: int]) tr = [0]"
    by (rule usage_loop_invariant [OF _ _ _ _ _ assms]) (simp_all add: DEFAULT_OCTETS_def)
  then have "take 1 tr = [0]" by simp
  then have "hd tr = 0"
    by (cases tr) simp_all
  with inv show ?thesis by simp
qed

theorem used_total_monotone_witness:
  "usage_loop (every_time 0) 0 0 [0]
     = (512000, QuotaExhausted,
        [0, 51200, 102400, 153600, 204800, 256000, 307200, 358400, 409600, 460800, 512000])
 \<and> sorted [0, 51200, 102400, 153600, 204800, 256000, 307200, 358400, 409600, 460800, 512000 :: int]
 \<and> stepwise [0, 51200, 102400, 153600, 204800, 256000, 307200, 358400, 409600, 460800, 512000]"
proof -
  have run: "usage_loop (every_time 0) 0 0 [0]
     = (512000, QuotaExhausted,
        [0, 51200, 102400, 153600, 204800, 256000, 307200, 358400, 409600, 460800, 512000])"
    by (simp add: usage_loop.simps every_time_def DEFAULT_OCTETS_def VALIDITY_SECONDS_def
          SIM_STEP_BYTES_def)
  from used_total_monotone [OF run] run show ?thesis by simp
qed

lemma send_and_wait_cases:
  "send_and_wait c m =
     (case recv_one_diameter (incoming c) of
        Inl e \<Rightarrow> (Inl e, \<lparr>incoming = incoming c, sent = sent c @ [m]\<rparr>)
      | Inr (raw, s) \<Rightarrow> (Inr raw, \<lparr>incoming = s, sent = sent c @ [m]\<rparr>))"
  by (simp add: send_and_wait_def Let_def split: sum.splits prod.splits)

lemma build_ccr_exh_ok:
  assumes "0 \<le> u" and "u \<le> DEFAULT_OCTETS" and "rr = 2 \<or> rr = 3"
  obtains c where "build_ccr_exh e st ty no u rr = Inr c"
    and "cc_request_type c = Some ty" and "cc_request_number c = Some no"
    and "reporting_reasons c = [rr]"
proof -
  have m: "build_mscc DEFAULT_OCTETS u rr
     = Inr (Avp 456 0 (Grouped
         [Avp 437 0 (Grouped [Avp 421 0 (Unsigned64 DEFAULT_OCTETS)]),
          Avp 446 0 (Grouped
            [Avp 421 0 (Unsigned64 u),
             Avp 412 0 (Unsigned64 (u div 4)),
             Avp 414 0 (Unsigned64 (u - u div 4))]),
          Avp 432 0 (Unsigned32 RATING_GROUP),
          Avp AVP_TGPP_3GPP_REPORTING_REASON VENDOR_TGPP (Enumerated rr)]))"
    using assms by (intro build_mscc_Inr) (auto simp: DEFAULT_OCTETS_def)
  let ?c = "projr (build_ccr_exh e st ty no u rr)"
  have "build_ccr_exh e st ty no u rr = Inr ?c"
    by (simp add: build_ccr_exh_def m Let_def)
  moreover have "cc_request_type ?c = Some ty" and "cc_request_number ?c = Some no"
    and "reporting_reasons ?c = [rr]"
    by (simp_all add: build_ccr_exh_def m add_common_ccr_avps_exh_def append_avp_def
      add_subscription_id_def Let_def reporting_reasons_def mscc_avps_def rr_values_def
      CreditControlRequest_def service_information_def set_value_def
      children_def int_value_def List.map_filter_def const_defs)
  ultimately show thesis
    by (rule that)
qed

lemma build_ccr_exh_projr:
  assumes "0 \<le> u" and "u \<le> DEFAULT_OCTETS" and "rr = 2 \<or> rr = 3"
  shows "build_ccr_exh e st ty no u rr = Inr c \<longleftrightarrow> c = projr (build_ccr_exh e st ty no u rr)"
    and "cc_request_type (projr (build_ccr_exh e st ty no u rr)) = Some ty"
    and "cc_request_number (projr (build_ccr_exh e st ty no u rr)) = Some no"
    and "reporting_reasons (projr (build_ccr_exh e st ty no u rr)) = [rr]"
proof -
  from assms obtain c' where c': "build_ccr_exh e st ty no u rr = Inr c'"
    and f: "cc_request_type c' = Some ty" "cc_request_number c' = Some no"
      "reporting_reasons c' = [rr]"
    by (rule build_ccr_exh_ok)
  show "build_ccr_exh e st ty no u rr = Inr c \<longleftrightarrow> c = projr (build_ccr_exh e st ty no u rr)"
    by (auto simp: c')
  show "cc_request_type (projr (build_ccr_exh e st ty no u rr)) = Some ty"
    and "cc_request_number (projr (build_ccr_exh e st ty no u rr)) = Some no"
    and "reporting_reasons (projr (build_ccr_exh e st ty no u rr)) = [rr]"
    using f by (simp_all add: c')
qed

lemmas build_ccr_exh_fields =
  build_ccr_exh_projr(2,3,4) usage_loop_fst_range DEFAULT_OCTETS_nonneg

lemma main_exh_sent:
  fixes e s
  defines "u \<equiv> fst (usage_loop (elapsed_at e) 0 0 [0])"
  defines "msgs \<equiv>
     [CER build_cer_exh,
      CCR (projr (build_ccr_exh e (stamp_of e 0) E_CC_REQUEST_TYPE_INITIAL_REQUEST 0 0 2)),
      CCR (projr (build_ccr_exh e (stamp_of e 1) E_CC_REQUEST_TYPE_UPDATE_REQUEST 1 u 3)),
      CCR (projr (build_ccr_exh e (stamp_of e 2) E_CC_REQUEST_TYPE_TERMINATION_REQUEST 2 u 2))]"
  shows "sent (snd (main_exh e s)) \<in> {take 1 msgs, take 2 msgs, take 3 msgs, msgs}"
    and "fst (main_exh e s) = Inr () \<Longrightarrow> sent (snd (main_exh e s)) = msgs"
proof -
  obtain u' ex tr where L: "usage_loop (elapsed_at e) 0 0 [0] = (u', ex, tr)"
    by (cases "usage_loop (elapsed_at e) 0 0 [0]") auto
  note r = usage_loop_range [OF L]
  obtain ci where ci: "build_ccr_exh e (stamp_of e 0) E_CC_REQUEST_TYPE_INITIAL_REQUEST 0 0 2 = Inr ci"
    using build_ccr_exh_ok [of 0 2, OF order_refl DEFAULT_OCTETS_nonneg] by blast
  obtain cu where cu: "build_ccr_exh e (stamp_of e 1) E_CC_REQUEST_TYPE_UPDATE_REQUEST 1 u' 3 = Inr cu"
    using build_ccr_exh_ok [of u' 3, OF r] by blast
  obtain ct where ct: "build_ccr_exh e (stamp_of e 2) E_CC_REQUEST_TYPE_TERMINATION_REQUEST 2 u' 2 = Inr ct"
    using build_ccr_exh_ok [of u' 2, OF r] by blast
  show "sent (snd (main_exh e s)) \<in> {take 1 msgs, take 2 msgs, take 3 msgs, msgs}"
    unfolding u_def msgs_def main_exh_def send_and_wait_cases
    by (auto simp: Let_def L ci cu ct split: sum.splits prod.splits)
  show "fst (main_exh e s) = Inr () \<Longrightarrow> sent (snd (main_exh e s)) = msgs"
    unfolding u_def msgs_def main_exh_def send_and_wait_cases
    by (auto simp: Let_def L ci cu ct split: sum.splits prod.splits)
qed

lemma send_and_recv_cases:
  "send_and_recv fb c m =
     (case recv_one_diameter (incoming c) of
        Inl e \<Rightarrow> (Inl (Raised e), \<lparr>incoming = incoming c, sent = sent c @ [m]\<rparr>)
      | Inr (raw, s) \<Rightarrow>
          (case fb raw of
             None \<Rightarrow> (Inl FromBytesError, \<lparr>incoming = s, sent = sent c @ [m]\<rparr>)
           | Some ans \<Rightarrow> (Inr ans, \<lparr>incoming = s, sent = sent c @ [m]\<rparr>)))"
  by (simp add: send_and_recv_def Let_def split: sum.splits prod.splits option.splits)

lemma main_iut_sent:
  fixes fb :: "bytes \<Rightarrow> 'm option" and st s
  defines "msgs \<equiv>
     [CER build_cer_iut,
      CCR (build_ccr_iut (st 0) E_CC_REQUEST_TYPE_INITIAL_REQUEST 0 USED_I_TOTAL),
      CCR (build_ccr_iut (st 1) E_CC_REQUEST_TYPE_UPDATE_REQUEST 1 USED_U_TOTAL),
      CCR (build_ccr_iut (st 2) E_CC_REQUEST_TYPE_TERMINATION_REQUEST 2 USED_T_TOTAL)]"
  shows "sent (snd (main_iut fb st s)) \<in> {take 1 msgs, take 2 msgs, take 3 msgs, msgs}"
    and "fst (main_iut fb st s) = Inr () \<Longrightarrow> sent (snd (main_iut fb st s)) = msgs"
  unfolding msgs_def main_iut_def send_and_recv_cases
  by (auto simp: Let_def split: sum.splits prod.splits option.splits)

lemma build_ccr_iut_fields:
  "cc_request_type (build_ccr_iut st ty no u) = Some ty"
  "cc_request_number (build_ccr_iut st ty no u) = Some no"
  "reporting_reasons (build_ccr_iut st ty no u)
     = [if ty = E_CC_REQUEST_TYPE_UPDATE_REQUEST then 3 else 2]"
  by (simp_all add: build_ccr_iut_def add_common_ccr_avps_iut_def append_avp_def
      add_subscription_id_def add_multiple_services_credit_control_def Let_def
      reporting_reasons_def mscc_avps_def rr_values_def
      CreditControlRequest_def service_information_def set_value_def
      children_def int_value_def List.map_filter_def const_defs)

lemma recv_bare: "recv_one_diameter (bare_answer # rest) = Inr (bare_answer, rest)"
proof -
  have a: "avail (bare_answer # rest) = bare_answer @ avail rest"
    by (simp add: avail_def bare_answer_def)
  have len: "\<not> length (avail (bare_answer # rest)) < 20"
    unfolding a by (simp add: bare_answer_def)
  have L: "from_bytes_big (py_slice 1 4 (avail (bare_answer # rest))) = 20"
    unfolding a by (simp add: py_slice_def from_bytes_big_def bare_answer_def)
  have r: "rest_after 20 (bare_answer # rest) = rest"
    by (simp add: rest_after_def bare_answer_def)
  have t: "take 20 (avail (bare_answer # rest)) = bare_answer"
    unfolding a by (simp add: bare_answer_def)
  from L have L': "from_bytes_big (py_slice (Suc 0) 4 (avail (bare_answer # rest))) = 20"
    by simp
  show ?thesis
    by (subst recv_one_diameter_cases) (simp add: len L' r t)
qed

lemma main_exh_completes: "fst (main_exh e four_answers) = Inr ()"
proof -
  obtain u' ex tr where L: "usage_loop (elapsed_at e) 0 0 [0] = (u', ex, tr)"
    by (cases "usage_loop (elapsed_at e) 0 0 [0]") auto
  note r = usage_loop_range [OF L]
  obtain ci where ci: "build_ccr_exh e (stamp_of e 0) E_CC_REQUEST_TYPE_INITIAL_REQUEST 0 0 2 = Inr ci"
    using build_ccr_exh_ok [of 0 2, OF order_refl DEFAULT_OCTETS_nonneg] by blast
  obtain cu where cu: "build_ccr_exh e (stamp_of e 1) E_CC_REQUEST_TYPE_UPDATE_REQUEST 1 u' 3 = Inr cu"
    using build_ccr_exh_ok [of u' 3, OF r] by blast
  obtain ct where ct: "build_ccr_exh e (stamp_of e 2) E_CC_REQUEST_TYPE_TERMINATION_REQUEST 2 u' 2 = Inr ct"
    using build_ccr_exh_ok [of u' 2, OF r] by blast
  from cu have cu': "build_ccr_exh e (stamp_of e (Suc 0)) E_CC_REQUEST_TYPE_UPDATE_REQUEST 1 u' 3
      = Inr cu"
    by simp
  show ?thesis
    by (simp add: main_exh_def send_and_wait_cases four_answers_def recv_bare Let_def
        L ci cu' ct)
qed

lemma main_iut_completes: "fst (main_iut Some st four_answers) = Inr ()"
  by (simp add: main_iut_def send_and_recv_cases four_answers_def recv_bare Let_def)

lemma usage_loop_exit:
  "usage_loop el i u tr = (u', ex, tr') \<Longrightarrow> (ex = QuotaExhausted) = (DEFAULT_OCTETS \<le> u')"
proof (induction el i u tr rule: usage_loop.induct)
  case (1 el i u tr)
  show ?case
  proof (cases "DEFAULT_OCTETS \<le> u")
    case True
    with "1.prems" show ?thesis
      by (simp add: usage_loop_exhausted)
  next
    case lt: False
    show ?thesis
    proof (cases "VALIDITY_SECONDS \<le> el i")
      case True
      with lt "1.prems" show ?thesis
        by (auto simp: usage_loop_expired)
    next
      case False
      with lt "1.prems" have "usage_loop el (Suc i) (min DEFAULT_OCTETS (u + SIM_STEP_BYTES))
          (tr @ [min DEFAULT_OCTETS (u + SIM_STEP_BYTES)]) = (u', ex, tr')"
        by (simp add: usage_loop_step)
      with lt False show ?thesis
        by (intro "1.IH" [OF refl _ _ refl]) simp_all
    qed
  qed
qed




lemma sent_exh_run:
  "sent (snd (main_exh e four_answers))
     = [CER build_cer_exh,
        CCR (projr (build_ccr_exh e (stamp_of e 0) E_CC_REQUEST_TYPE_INITIAL_REQUEST 0 0 2)),
        CCR (projr (build_ccr_exh e (stamp_of e 1) E_CC_REQUEST_TYPE_UPDATE_REQUEST 1
               (fst (usage_loop (elapsed_at e) 0 0 [0])) 3)),
        CCR (projr (build_ccr_exh e (stamp_of e 2) E_CC_REQUEST_TYPE_TERMINATION_REQUEST 2
               (fst (usage_loop (elapsed_at e) 0 0 [0])) 2))]"
  by (rule main_exh_sent(2) [OF main_exh_completes])

lemma sent_iut_run:
  "sent (snd (main_iut Some st four_answers))
     = [CER build_cer_iut,
        CCR (build_ccr_iut (st 0) E_CC_REQUEST_TYPE_INITIAL_REQUEST 0 USED_I_TOTAL),
        CCR (build_ccr_iut (st 1) E_CC_REQUEST_TYPE_UPDATE_REQUEST 1 USED_U_TOTAL),
        CCR (build_ccr_iut (st 2) E_CC_REQUEST_TYPE_TERMINATION_REQUEST 2 USED_T_TOTAL)]"
  by (rule main_iut_sent(2) [OF main_iut_completes])

lemma loop_expired_at_once:
  "usage_loop (elapsed_at (env_at 1800)) 0 0 [0] = (0, ValidityExpired, [0])"
  by (simp add: usage_loop_expired env_at_def every_time_def DEFAULT_OCTETS_def
      VALIDITY_SECONDS_def)

lemma in_ccrs_take:
  "ms \<in> {take 1 [CER a, CCR b, CCR c, CCR d], take 2 [CER a, CCR b, CCR c, CCR d],
          take 3 [CER a, CCR b, CCR c, CCR d], [CER a, CCR b, CCR c, CCR d]} \<Longrightarrow>
   x \<in> set (ccrs ms) \<Longrightarrow> x = b \<or> x = c \<or> x = d"
  by auto

lemma hd_ccrs_take:
  "ms \<in> {take 1 [CER a, CCR b, CCR c, CCR d], take 2 [CER a, CCR b, CCR c, CCR d],
          take 3 [CER a, CCR b, CCR c, CCR d], [CER a, CCR b, CCR c, CCR d]} \<Longrightarrow>
   ccrs ms \<noteq> [] \<Longrightarrow> hd (ccrs ms) = b"
  by auto

text \<open>
  Claim C2, as the code has it. The usage loop tests exhaustion before the validity timer,
  so it ends on exhaustion exactly when \<open>used_total\<close> has reached \<open>DEFAULT_OCTETS\<close>,
  whatever the timer reads; and the update request that \<open>main\<close> then sends carries
  Reporting-Reason 3 (QUOTA_EXHAUSTED) whichever of the two tests ended the loop. The
  script has no timer-expiry reason.
\<close>

theorem ccr_u_reporting_reason:
  assumes "usage_loop (elapsed_at e) 0 0 [0] = (u, ex, tr)"
  shows "(ex = QuotaExhausted) = (DEFAULT_OCTETS \<le> u)
       \<and> (\<forall>c \<in> set (ccrs (sent (snd (main_exh e s)))).
            cc_request_type c = Some E_CC_REQUEST_TYPE_UPDATE_REQUEST \<longrightarrow>
            build_ccr_exh e (stamp_of e 1) E_CC_REQUEST_TYPE_UPDATE_REQUEST 1 u 3 = Inr c
            \<and> reporting_reasons c = [3])"
proof -
  have "(ex = QuotaExhausted) = (DEFAULT_OCTETS \<le> u)"
    using assms by (rule usage_loop_exit)
  moreover have "build_ccr_exh e (stamp_of e 1) E_CC_REQUEST_TYPE_UPDATE_REQUEST 1 u 3 = Inr c
            \<and> reporting_reasons c = [3]"
    if "c \<in> set (ccrs (sent (snd (main_exh e s))))"
      and "cc_request_type c = Some E_CC_REQUEST_TYPE_UPDATE_REQUEST" for c
  proof -
    note r = usage_loop_range [OF assms]
    from in_ccrs_take [OF main_exh_sent(1) that(1)] that(2) assms r
    have "c = projr (build_ccr_exh e (stamp_of e 1) E_CC_REQUEST_TYPE_UPDATE_REQUEST 1 u 3)"
      by (auto simp: build_ccr_exh_projr const_defs)
    with r show ?thesis
      by (simp add: build_ccr_exh_projr)
  qed
  ultimately show ?thesis by blast
qed

theorem ccr_u_reporting_reason_witness:
  "(QuotaExhausted = QuotaExhausted) = (DEFAULT_OCTETS \<le> 512000)
 \<and> reporting_reasons (ccrs (sent (snd (main_exh (env_at 0) four_answers))) ! 1) = [3]"
proof -
  have run: "usage_loop (elapsed_at (env_at 0)) 0 0 [0]
     = (512000, QuotaExhausted,
        [0, 51200, 102400, 153600, 204800, 256000, 307200, 358400, 409600, 460800, 512000])"
    by (simp add: usage_loop.simps env_at_def every_time_def DEFAULT_OCTETS_def
          VALIDITY_SECONDS_def SIM_STEP_BYTES_def)
  have "ccrs (sent (snd (main_exh (env_at 0) four_answers))) ! 1
          \<in> set (ccrs (sent (snd (main_exh (env_at 0) four_answers))))"
    by (simp add: sent_exh_run)
  moreover have "cc_request_type (ccrs (sent (snd (main_exh (env_at 0) four_answers))) ! 1)
          = Some E_CC_REQUEST_TYPE_UPDATE_REQUEST"
    by (simp add: sent_exh_run build_ccr_exh_fields)
  ultimately show ?thesis
    using ccr_u_reporting_reason [OF run, of four_answers] by blast
qed

text \<open>
  The claim as stated fails: with the timer already expired at the first turn and nothing
  used, the loop ends on the timer, and the update request still carries
  Reporting-Reason 3.
\<close>

theorem ccr_u_reporting_reason_counterexample:
  "fst (snd (usage_loop (elapsed_at (env_at 1800)) 0 0 [0])) = ValidityExpired
 \<and> fst (usage_loop (elapsed_at (env_at 1800)) 0 0 [0]) < DEFAULT_OCTETS
 \<and> map cc_request_type (ccrs (sent (snd (main_exh (env_at 1800) four_answers))))
     = [Some E_CC_REQUEST_TYPE_INITIAL_REQUEST, Some E_CC_REQUEST_TYPE_UPDATE_REQUEST,
        Some E_CC_REQUEST_TYPE_TERMINATION_REQUEST]
 \<and> map reporting_reasons (ccrs (sent (snd (main_exh (env_at 1800) four_answers))))
     = [[2], [3], [2]]"
  by (simp add: loop_expired_at_once sent_exh_run build_ccr_exh_fields DEFAULT_OCTETS_def)

text \<open>
  Claim C3, as the code has it. In both scripts the first Credit-Control request of a run
  is the initial request, with request number 0, and its
  Multiple-Services-Credit-Control carries a Reporting-Reason AVP with value 2 (FINAL).
\<close>

theorem ccr_i_reporting_reason:
  "(ccrs (sent (snd (main_exh e s))) \<noteq> [] \<longrightarrow>
      cc_request_type (hd (ccrs (sent (snd (main_exh e s)))))
        = Some E_CC_REQUEST_TYPE_INITIAL_REQUEST
    \<and> cc_request_number (hd (ccrs (sent (snd (main_exh e s))))) = Some 0
    \<and> reporting_reasons (hd (ccrs (sent (snd (main_exh e s))))) = [2])
 \<and> (ccrs (sent (snd (main_iut fb st s'))) \<noteq> [] \<longrightarrow>
      cc_request_type (hd (ccrs (sent (snd (main_iut fb st s')))))
        = Some E_CC_REQUEST_TYPE_INITIAL_REQUEST
    \<and> cc_request_number (hd (ccrs (sent (snd (main_iut fb st s'))))) = Some 0
    \<and> reporting_reasons (hd (ccrs (sent (snd (main_iut fb st s'))))) = [2])"
proof -
  have "hd (ccrs (sent (snd (main_exh e s))))
          = projr (build_ccr_exh e (stamp_of e 0) E_CC_REQUEST_TYPE_INITIAL_REQUEST 0 0 2)"
    if "ccrs (sent (snd (main_exh e s))) \<noteq> []"
    by (rule hd_ccrs_take [OF main_exh_sent(1) that])
  moreover have "hd (ccrs (sent (snd (main_iut fb st s'))))
          = build_ccr_iut (st 0) E_CC_REQUEST_TYPE_INITIAL_REQUEST 0 USED_I_TOTAL"
    if "ccrs (sent (snd (main_iut fb st s'))) \<noteq> []"
    by (rule hd_ccrs_take [OF main_iut_sent(1) that])
  ultimately show ?thesis
    by (auto simp: build_ccr_exh_fields build_ccr_iut_fields const_defs)
qed

theorem ccr_i_reporting_reason_witness:
  "reporting_reasons (hd (ccrs (sent (snd (main_exh (env_at 0) four_answers))))) = [2]
 \<and> cc_request_number (hd (ccrs (sent (snd (main_exh (env_at 0) four_answers))))) = Some 0
 \<and> reporting_reasons (hd (ccrs (sent (snd (main_iut Some (every_time stamp0) four_answers)))))
     = [2]
 \<and> cc_request_number (hd (ccrs (sent (snd (main_iut Some (every_time stamp0) four_answers)))))
     = Some 0"
proof -
  have "ccrs (sent (snd (main_exh (env_at 0) four_answers))) \<noteq> []"
    and "ccrs (sent (snd (main_iut Some (every_time stamp0) four_answers))) \<noteq> []"
    by (simp_all add: sent_exh_run sent_iut_run)
  with ccr_i_reporting_reason
    [of "env_at 0" four_answers Some "every_time stamp0" four_answers]
  show ?thesis by blast
qed

text \<open>
  The claim as stated fails: the initial request of either script has a Reporting-Reason
  AVP in its Multiple-Services-Credit-Control group.
\<close>

theorem ccr_i_reporting_reason_counterexample:
  "reporting_reasons (hd (ccrs (sent (snd (main_exh (env_at 0) four_answers))))) \<noteq> []
 \<and> find_avp AVP_TGPP_3GPP_REPORTING_REASON VENDOR_TGPP
      (concat (mscc_avps (hd (ccrs (sent (snd (main_exh (env_at 0) four_answers)))))))
     = Some (Avp AVP_TGPP_3GPP_REPORTING_REASON VENDOR_TGPP (Enumerated 2))
 \<and> reporting_reasons (hd (ccrs (sent (snd (main_iut Some (every_time stamp0) four_answers)))))
     \<noteq> []
 \<and> find_avp AVP_TGPP_3GPP_REPORTING_REASON VENDOR_TGPP
      (concat (mscc_avps (hd (ccrs (sent (snd (main_iut Some (every_time stamp0) four_answers)))))))
     = Some (Avp AVP_TGPP_3GPP_REPORTING_REASON VENDOR_TGPP (Enumerated 2))"
  by (simp add: sent_exh_run sent_iut_run build_ccr_exh_fields build_ccr_iut_fields const_defs)
     (simp add: build_ccr_exh_def add_common_ccr_avps_exh_def append_avp_def
      add_subscription_id_def Let_def mscc_avps_def find_avp_def
      CreditControlRequest_def service_information_def set_value_def build_mscc_def
      split_in_out_def children_def build_ccr_iut_def add_common_ccr_avps_iut_def
      add_multiple_services_credit_control_def const_defs Avp_new_def fits_def
      DEFAULT_OCTETS_def RATING_GROUP_def)

section \<open>Properties of the message codec\<close>

lemma length_be [simp]: "length (be k n) = k"
  by (induction k arbitrary: n) simp_all

lemma from_bytes_big_snoc: "from_bytes_big (bs @ [b]) = from_bytes_big bs * 256 + unat b"
  by (simp add: from_bytes_big_def)

lemma from_bytes_big_be: "from_bytes_big (be k n) = n mod 256 ^ k"
proof (induction k arbitrary: n)
  case 0
  then show ?case by (simp add: from_bytes_big_def)
next
  case (Suc k)
  have "unat (of_nat (n mod 256) :: byte) = n mod 256"
    by (simp add: unat_of_nat)
  then have "from_bytes_big (be (Suc k) n) = (n div 256) mod 256 ^ k * 256 + n mod 256"
    by (simp add: from_bytes_big_snoc Suc.IH)
  also have "\<dots> = n mod 256 ^ Suc k"
    by (simp add: mod_mult2_eq mult.commute)
  finally show ?case .
qed

lemma to_bytes_big_Inr:
  assumes "to_bytes_big k n = Inr bs"
  shows "length bs = k" and "from_bytes_big bs = nat n" and "0 \<le> n" and "n < 256 ^ k"
proof -
  from assms have n: "0 \<le> n" "n < 256 ^ k" and bs: "bs = be k (nat n)"
    by (auto simp: to_bytes_big_def split: if_splits)
  show "0 \<le> n" "n < 256 ^ k" by fact+
  show "length bs = k" by (simp add: bs)
  have "nat n < 256 ^ k"
    using n by (simp add: nat_less_iff)
  then show "from_bytes_big bs = nat n"
    by (simp add: bs from_bytes_big_be)
qed

lemma pad4_ge: "n \<le> pad4 n"
  unfolding pad4_def by presburger

lemma pad4_add: "pad4 (8 + n) = 8 + pad4 n" "pad4 (12 + n) = 12 + pad4 n"
  unfolding pad4_def by presburger+

lemma length_padding [simp]: "length (padding n) = pad4 n - n"
  by (simp add: padding_def)

lemma avp_bytes_Inr:
  assumes "avp_bytes m code vendor payload = Inr bs"
  obtains cb lb vb where
    "bs = cb @ [(if vendor \<noteq> 0 then 128 else 0) + (if m then 64 else 0)] @ lb @ vb @ payload
            @ padding (length payload)"
    "to_bytes_big 4 code = Inr cb"
    "to_bytes_big 3 ((if vendor \<noteq> 0 then 12 else 8) + int (length payload)) = Inr lb"
    "(if vendor \<noteq> 0 then to_bytes_big 4 vendor else Inr []) = Inr vb"
proof -
  let ?l = "to_bytes_big 3 ((if vendor \<noteq> 0 then 12 else 8) + int (length payload))"
  let ?v = "if vendor \<noteq> 0 then to_bytes_big 4 vendor else Inr []"
  have eq: "avp_bytes m code vendor payload =
      and_then (to_bytes_big 4 code) (\<lambda>cb. and_then ?l (\<lambda>lb. and_then ?v (\<lambda>vb.
        Inr (cb @ [(if vendor \<noteq> 0 then 128 else 0) + (if m then 64 else 0)] @ lb @ vb
             @ payload @ padding (length payload)))))"
    by (simp only: avp_bytes_def Let_def)
  from assms obtain cb where cb: "to_bytes_big 4 code = Inr cb"
    unfolding eq by (cases "to_bytes_big 4 code") (simp_all only: and_then_Inl and_then_Inr sum.distinct)
  from assms obtain lb where lb: "?l = Inr lb"
    unfolding eq cb and_then_Inr by (cases ?l) (simp_all only: and_then_Inl and_then_Inr sum.distinct)
  from assms obtain vb where vb: "?v = Inr vb"
    unfolding eq cb lb and_then_Inr by (cases ?v) (simp_all only: and_then_Inl and_then_Inr sum.distinct)
  from assms have "bs = cb @ [(if vendor \<noteq> 0 then 128 else 0) + (if m then 64 else 0)] @ lb @ vb
             @ payload @ padding (length payload)"
    unfolding eq cb lb vb and_then_Inr by (simp only: sum.inject)
  with cb lb vb that show thesis by blast
qed

lemma flag_bits:
  "bit ((if v then 128 else 0) + (if m then 64 else 0) :: byte) 7 = v"
  "bit ((if v then 128 else 0) + (if m then 64 else 0) :: byte) 6 = m"
  "bit ((if v then 128 else 0) + (if m then 64 else 0) :: byte) 5 = False"
  by (cases v; cases m; simp)+

declare decode_avps.simps [simp del]

lemma py_slice_mid:
  "length pre = i \<Longrightarrow> j = i + length mid \<Longrightarrow> py_slice i j (pre @ mid @ post) = mid"
  by (simp add: py_slice_def)

lemma drop_prefix: "length pre = n \<Longrightarrow> drop n (pre @ post) = post"
  by simp

lemma decode_avps_step:
  fixes cb lb vb payload pad rest :: bytes and flags :: byte
  assumes "length cb = 4" and "length lb = 3" and "length vb = (if bit flags 7 then 4 else 0)"
    and "from_bytes_big lb = 8 + length vb + length payload"
    and "length pad = pad4 (length payload) - length payload"
  shows "decode_avps (cb @ [flags] @ lb @ vb @ payload @ pad @ rest)
     = (case decode_avps rest of
          Inl e \<Rightarrow> Inl e
        | Inr as \<Rightarrow>
            Inr (RawAvp (from_bytes_big cb)
                   (if bit flags 7 then Some (from_bytes_big vb) else None)
                   (bit flags 6) (bit flags 5) payload # as))"
proof -
  let ?w = "cb @ [flags] @ lb @ vb @ payload @ pad @ rest"
  let ?hs = "8 + length vb"
  let ?len = "?hs + length payload"
  have s04: "py_slice 0 4 ?w = cb"
    using assms(1) by (simp add: py_slice_def)
  have f: "?w ! 4 = flags"
    using assms(1) by (simp add: nth_append)
  have s58: "py_slice 5 8 ?w = lb"
    using assms(1,2) by (simp add: py_slice_def)
  have s812: "py_slice 8 12 ?w = vb" if "bit flags 7"
    using assms(1,2,3) that by (simp add: py_slice_def)
  have hs: "(if bit flags 7 then 12 else 8) = ?hs"
    using assms(3) by simp
  have pay: "py_slice ?hs ?len ?w = payload"
    using py_slice_mid [of "cb @ [flags] @ lb @ vb" ?hs ?len payload "pad @ rest"] assms(1,2)
    by simp
  have pad: "pad4 ?len = ?len + length pad"
  proof (cases "bit flags 7")
    case True
    with assms(3) have "pad4 ?len = 12 + pad4 (length payload)"
      using pad4_add(2) [of "length payload"] by simp
    with True assms(3,5) pad4_ge [of "length payload"] show ?thesis by simp
  next
    case False
    with assms(3) have "pad4 ?len = 8 + pad4 (length payload)"
      using pad4_add(1) [of "length payload"] by simp
    with False assms(3,5) pad4_ge [of "length payload"] show ?thesis by simp
  qed
  have dr: "drop (pad4 ?len) ?w = rest"
    unfolding pad
    using drop_prefix [of "cb @ [flags] @ lb @ vb @ payload @ pad" "?len + length pad" rest]
      assms(1,2)
    by simp
  have ne: "?w \<noteq> []" and l8: "\<not> length ?w < 8"
    using assms(1,2) by simp_all
  have ok: "\<not> (?len < ?hs \<or> length ?w < ?len)"
    using assms(1,2) by simp
  have step: "decode_avps ?w
     = (case decode_avps rest of
          Inl e \<Rightarrow> Inl e
        | Inr as \<Rightarrow>
            Inr (RawAvp (from_bytes_big cb)
                   (if bit flags 7 then Some (from_bytes_big (py_slice 8 12 ?w)) else None)
                   (bit flags 6) (bit flags 5) payload # as))"
    by (subst decode_avps.simps)
       (simp only: ne l8 if_False Let_def s04 f s58 assms(4) hs ok pay dr)
  show ?thesis
  proof (cases "bit flags 7")
    case True
    show ?thesis
      unfolding step by (simp only: True if_True s812 [OF True])
  next
    case False
    show ?thesis
      unfolding step by (simp only: False if_False)
  qed
qed

lemma decode_avps_Nil [simp]: "decode_avps [] = Inr []"
  by (subst decode_avps.simps) simp

lemma decode_avp_bytes:
  assumes "avp_bytes m code vendor payload = Inr bs"
  shows "decode_avps (bs @ rest)
     = (case decode_avps rest of
          Inl e \<Rightarrow> Inl e
        | Inr as \<Rightarrow>
            Inr (RawAvp (nat code) (if vendor = 0 then None else Some (nat vendor)) m False
                   payload # as))"
    and "length bs = (if vendor = 0 then 8 else 12) + pad4 (length payload)"
proof -
  let ?flags = "(if vendor \<noteq> 0 then 128 else 0) + (if m then 64 else 0) :: byte"
  from assms obtain cb lb vb where
    bs: "bs = cb @ [?flags] @ lb @ vb @ payload @ padding (length payload)"
    and cb: "to_bytes_big 4 code = Inr cb"
    and lb: "to_bytes_big 3 ((if vendor \<noteq> 0 then 12 else 8) + int (length payload)) = Inr lb"
    and vb: "(if vendor \<noteq> 0 then to_bytes_big 4 vendor else Inr []) = Inr vb"
    by (rule avp_bytes_Inr)
  have b7: "bit ?flags 7 = (vendor \<noteq> 0)" and b6: "bit ?flags 6 = m" and b5: "bit ?flags 5 = False"
    by (rule flag_bits)+
  have lcb: "length cb = 4" and fcb: "from_bytes_big cb = nat code"
    using to_bytes_big_Inr(1,2) [OF cb] by simp_all
  have llb: "length lb = 3"
    using to_bytes_big_Inr(1) [OF lb] by simp
  have lvb: "length vb = (if vendor \<noteq> 0 then 4 else 0)"
    using vb to_bytes_big_Inr(1) [of 4 vendor vb] by (auto split: if_splits)
  have fvb: "from_bytes_big vb = nat vendor" if "vendor \<noteq> 0"
    using vb that to_bytes_big_Inr(2) [of 4 vendor vb] by simp
  have flb: "from_bytes_big lb = 8 + length vb + length payload"
    using to_bytes_big_Inr(2) [OF lb] lvb by (auto split: if_splits)
  have "decode_avps (cb @ [?flags] @ lb @ vb @ payload @ padding (length payload) @ rest)
     = (case decode_avps rest of
          Inl e \<Rightarrow> Inl e
        | Inr as \<Rightarrow>
            Inr (RawAvp (from_bytes_big cb)
                   (if bit ?flags 7 then Some (from_bytes_big vb) else None)
                   (bit ?flags 6) (bit ?flags 5) payload # as))"
    using lcb llb lvb flb by (intro decode_avps_step) (simp_all only: b7 length_padding)
  then show "decode_avps (bs @ rest)
     = (case decode_avps rest of
          Inl e \<Rightarrow> Inl e
        | Inr as \<Rightarrow>
            Inr (RawAvp (nat code) (if vendor = 0 then None else Some (nat vendor)) m False
                   payload # as))"
    unfolding bs b7 b6 b5 fcb using fvb by (cases "vendor = 0") (simp_all cong: sum.case_cong)
  show "length bs = (if vendor = 0 then 8 else 12) + pad4 (length payload)"
    unfolding bs using lcb llb lvb pad4_ge [of "length payload"] by simp
qed

lemma encode_avp_payload:
  "encode_avp mand a
     = and_then (payload_of mand (avp_val a))
         (avp_bytes (mand (avp_code a) (avp_vendor_id a)) (avp_code a) (avp_vendor_id a))"
  by (cases a) (simp add: payload_of_def)

lemma concat_all_Cons_Inr:
  "concat_all (r # rs) = Inr bs \<longleftrightarrow> (\<exists>b bs'. r = Inr b \<and> concat_all rs = Inr bs' \<and> bs = b @ bs')"
  by (auto split: sum.splits)

lemma decode_encode_avp:
  assumes "encode_avp mand a = Inr bs"
  shows "decode_avps (bs @ rest)
     = (case decode_avps rest of Inl e \<Rightarrow> Inl e | Inr as \<Rightarrow> Inr (raw_of mand a # as))"
    and "length bs = (if avp_vendor_id a = 0 then 8 else 12)
                     + pad4 (length (raw_payload (raw_of mand a)))"
proof -
  from assms obtain p where p: "payload_of mand (avp_val a) = Inr p"
    and b: "avp_bytes (mand (avp_code a) (avp_vendor_id a)) (avp_code a) (avp_vendor_id a) p = Inr bs"
    unfolding encode_avp_payload and_then_eq_Inr by blast
  have r: "raw_of mand a = RawAvp (nat (avp_code a))
             (if avp_vendor_id a = 0 then None else Some (nat (avp_vendor_id a)))
             (mand (avp_code a) (avp_vendor_id a)) False p"
    by (simp add: raw_of_def p)
  show "decode_avps (bs @ rest)
     = (case decode_avps rest of Inl e \<Rightarrow> Inl e | Inr as \<Rightarrow> Inr (raw_of mand a # as))"
    unfolding r by (rule decode_avp_bytes(1) [OF b])
  show "length bs = (if avp_vendor_id a = 0 then 8 else 12)
                     + pad4 (length (raw_payload (raw_of mand a)))"
    unfolding r using decode_avp_bytes(2) [OF b] by simp
qed

lemma decode_encode_avps:
  "encode_avps mand xs = Inr bs \<Longrightarrow>
   decode_avps (bs @ rest)
     = (case decode_avps rest of
          Inl e \<Rightarrow> Inl e
        | Inr as \<Rightarrow> Inr (map (raw_of mand) xs @ as))"
proof (induction xs arbitrary: bs)
  case Nil
  then show ?case
    by (simp add: encode_avps_def split: sum.splits)
next
  case (Cons a xs)
  from Cons.prems obtain b bs' where b: "encode_avp mand a = Inr b"
    and bs': "encode_avps mand xs = Inr bs'" and bs: "bs = b @ bs'"
    unfolding encode_avps_def list.map concat_all_Cons_Inr by blast
  have "decode_avps (b @ (bs' @ rest))
     = (case decode_avps (bs' @ rest) of Inl e \<Rightarrow> Inl e | Inr as \<Rightarrow> Inr (raw_of mand a # as))"
    by (rule decode_encode_avp(1) [OF b])
  then show ?case
    by (simp add: bs Cons.IH [OF bs'] split: sum.splits)
qed

lemma header_flag_bits:
  "bit ((if r then 128 else 0) + (if p then 64 else 0) + (if e then 32 else 0)
        + (if t then 16 else 0) :: byte) 7 = r"
  "bit ((if r then 128 else 0) + (if p then 64 else 0) + (if e then 32 else 0)
        + (if t then 16 else 0) :: byte) 6 = p"
  "bit ((if r then 128 else 0) + (if p then 64 else 0) + (if e then 32 else 0)
        + (if t then 16 else 0) :: byte) 5 = e"
  "bit ((if r then 128 else 0) + (if p then 64 else 0) + (if e then 32 else 0)
        + (if t then 16 else 0) :: byte) 4 = t"
  by (cases r; cases p; cases e; cases t; simp)+

lemma encode_header_Inr:
  assumes "encode_header h = Inr hb"
  obtains vb lb cb ab hbb eb where
    "hb = vb @ lb @ [(if is_request h then 128 else 0) + (if is_proxyable h then 64 else 0)
                + (if is_error h then 32 else 0) + (if is_retransmit h then 16 else 0)]
             @ cb @ ab @ hbb @ eb"
    "to_bytes_big 1 (version h) = Inr vb"
    "to_bytes_big 3 (header_length h) = Inr lb"
    "to_bytes_big 3 (command_code h) = Inr cb"
    "to_bytes_big 4 (application_id h) = Inr ab"
    "to_bytes_big 4 (hop_by_hop_identifier h) = Inr hbb"
    "to_bytes_big 4 (end_to_end_identifier h) = Inr eb"
proof -
  let ?f = "(if is_request h then 128 else 0) + (if is_proxyable h then 64 else 0)
                + (if is_error h then 32 else 0) + (if is_retransmit h then 16 else 0) :: byte"
  have eq: "encode_header h =
      and_then (to_bytes_big 1 (version h)) (\<lambda>vb.
      and_then (to_bytes_big 3 (header_length h)) (\<lambda>lb.
      and_then (to_bytes_big 3 (command_code h)) (\<lambda>cb.
      and_then (to_bytes_big 4 (application_id h)) (\<lambda>ab.
      and_then (to_bytes_big 4 (hop_by_hop_identifier h)) (\<lambda>hb.
      and_then (to_bytes_big 4 (end_to_end_identifier h)) (\<lambda>eb.
        Inr (vb @ lb @ [?f] @ cb @ ab @ hb @ eb)))))))"
    by (simp only: encode_header_def Let_def)
  from assms obtain vb where vb: "to_bytes_big 1 (version h) = Inr vb"
    unfolding eq by (cases "to_bytes_big 1 (version h)")
      (simp_all only: and_then_Inl and_then_Inr sum.distinct)
  from assms obtain lb where lb: "to_bytes_big 3 (header_length h) = Inr lb"
    unfolding eq vb and_then_Inr by (cases "to_bytes_big 3 (header_length h)")
      (simp_all only: and_then_Inl and_then_Inr sum.distinct)
  from assms obtain cb where cb: "to_bytes_big 3 (command_code h) = Inr cb"
    unfolding eq vb lb and_then_Inr by (cases "to_bytes_big 3 (command_code h)")
      (simp_all only: and_then_Inl and_then_Inr sum.distinct)
  from assms obtain ab where ab: "to_bytes_big 4 (application_id h) = Inr ab"
    unfolding eq vb lb cb and_then_Inr by (cases "to_bytes_big 4 (application_id h)")
      (simp_all only: and_then_Inl and_then_Inr sum.distinct)
  from assms obtain hbb where hbb: "to_bytes_big 4 (hop_by_hop_identifier h) = Inr hbb"
    unfolding eq vb lb cb ab and_then_Inr by (cases "to_bytes_big 4 (hop_by_hop_identifier h)")
      (simp_all only: and_then_Inl and_then_Inr sum.distinct)
  from assms obtain eb where eb: "to_bytes_big 4 (end_to_end_identifier h) = Inr eb"
    unfolding eq vb lb cb ab hbb and_then_Inr by (cases "to_bytes_big 4 (end_to_end_identifier h)")
      (simp_all only: and_then_Inl and_then_Inr sum.distinct)
  from assms have "hb = vb @ lb @ [?f] @ cb @ ab @ hbb @ eb"
    unfolding eq vb lb cb ab hbb eb and_then_Inr by (simp only: sum.inject)
  with vb lb cb ab hbb eb that show thesis by blast
qed

lemma decode_encode_header:
  assumes "encode_header h = Inr hb"
  shows "length hb = 20"
    and "decode_header (hb @ body) = h"
    and "from_bytes_big (py_slice 1 4 (hb @ body)) = nat (header_length h)"
    and "0 \<le> header_length h"
proof -
  let ?f = "(if is_request h then 128 else 0) + (if is_proxyable h then 64 else 0)
                + (if is_error h then 32 else 0) + (if is_retransmit h then 16 else 0) :: byte"
  from assms obtain vb lb cb ab hbb eb where
    hb: "hb = vb @ lb @ [?f] @ cb @ ab @ hbb @ eb"
    and vb: "to_bytes_big 1 (version h) = Inr vb"
    and lb: "to_bytes_big 3 (header_length h) = Inr lb"
    and cb: "to_bytes_big 3 (command_code h) = Inr cb"
    and ab: "to_bytes_big 4 (application_id h) = Inr ab"
    and hbb: "to_bytes_big 4 (hop_by_hop_identifier h) = Inr hbb"
    and eb: "to_bytes_big 4 (end_to_end_identifier h) = Inr eb"
    by (rule encode_header_Inr)
  note l = to_bytes_big_Inr(1) [OF vb] to_bytes_big_Inr(1) [OF lb] to_bytes_big_Inr(1) [OF cb]
    to_bytes_big_Inr(1) [OF ab] to_bytes_big_Inr(1) [OF hbb] to_bytes_big_Inr(1) [OF eb]
  note v = to_bytes_big_Inr(2,3) [OF vb] to_bytes_big_Inr(2,3) [OF lb] to_bytes_big_Inr(2,3) [OF cb]
    to_bytes_big_Inr(2,3) [OF ab] to_bytes_big_Inr(2,3) [OF hbb] to_bytes_big_Inr(2,3) [OF eb]
  show "length hb = 20"
    unfolding hb using l by simp
  show "0 \<le> header_length h" by (rule v)
  have s01: "py_slice 0 1 (hb @ body) = vb"
    unfolding hb using py_slice_mid [of "[]" 0 1 vb "lb @ [?f] @ cb @ ab @ hbb @ eb @ body"] l
    by simp
  have s14: "py_slice 1 4 (hb @ body) = lb"
    unfolding hb using py_slice_mid [of vb 1 4 lb "[?f] @ cb @ ab @ hbb @ eb @ body"] l
    by simp
  have f: "(hb @ body) ! 4 = ?f"
    unfolding hb using l nth_append_length [of "vb @ lb" ?f "cb @ ab @ hbb @ eb @ body"]
    by simp
  have s58: "py_slice 5 8 (hb @ body) = cb"
    unfolding hb using py_slice_mid [of "vb @ lb @ [?f]" 5 8 cb "ab @ hbb @ eb @ body"] l
    by simp
  have s812: "py_slice 8 12 (hb @ body) = ab"
    unfolding hb using py_slice_mid [of "vb @ lb @ [?f] @ cb" 8 12 ab "hbb @ eb @ body"] l
    by simp
  have s1216: "py_slice 12 16 (hb @ body) = hbb"
    unfolding hb using py_slice_mid [of "vb @ lb @ [?f] @ cb @ ab" 12 16 hbb "eb @ body"] l
    by simp
  have s1620: "py_slice 16 20 (hb @ body) = eb"
    unfolding hb using py_slice_mid [of "vb @ lb @ [?f] @ cb @ ab @ hbb" 16 20 eb body] l
    by simp
  show "from_bytes_big (py_slice 1 4 (hb @ body)) = nat (header_length h)"
    unfolding s14 by (rule v)
  show "decode_header (hb @ body) = h"
    unfolding decode_header_def s01 s14 f s58 s812 s1216 s1620 header_flag_bits
    using v by simp
qed

lemma encode_message_Inr:
  assumes "encode_message mand h avps = Inr (bs, h')"
  obtains body hb where "encode_avps mand avps = Inr body"
    and "h' = h\<lparr>header_length := 20 + int (length body)\<rparr>"
    and "encode_header h' = Inr hb" and "bs = hb @ body"
proof -
  from assms obtain body where body: "encode_avps mand avps = Inr body"
    unfolding encode_message_def by (cases "encode_avps mand avps") simp_all
  let ?h = "h\<lparr>header_length := 20 + int (length body)\<rparr>"
  from assms obtain hb where hb: "encode_header ?h = Inr hb"
    unfolding encode_message_def body and_then_Inr Let_def
    by (cases "encode_header ?h") simp_all
  from assms have "bs = hb @ body" and "h' = ?h"
    unfolding encode_message_def body and_then_Inr Let_def hb by simp_all
  with body hb that show thesis by blast
qed

lemma message_roundtrip:
  assumes "encode_message mand h avps = Inr (bs, h')"
  shows "int (length bs) = header_length h'"
    and "from_bytes_big (py_slice 1 4 bs) = length bs"
    and "from_bytes bs = Inr (h', map (raw_of mand) avps)"
proof -
  from assms obtain body hb where body: "encode_avps mand avps = Inr body"
    and h': "h' = h\<lparr>header_length := 20 + int (length body)\<rparr>"
    and hb: "encode_header h' = Inr hb" and bs: "bs = hb @ body"
    by (rule encode_message_Inr)
  note H = decode_encode_header(1) [OF hb] decode_encode_header(2) [OF hb, of body]
    decode_encode_header(3) [OF hb, of body]
  show len: "int (length bs) = header_length h'"
    unfolding bs using H(1) by (simp add: h')
  show L: "from_bytes_big (py_slice 1 4 bs) = length bs"
    unfolding bs H(3) using H(1) by (simp add: h')
  have "decode_avps (body @ []) = Inr (map (raw_of mand) avps @ [])"
    using decode_encode_avps [OF body, of "[]"] by simp
  then have d: "decode_avps body = Inr (map (raw_of mand) avps)"
    by simp
  have sl: "py_slice 20 (length bs) bs = body"
    unfolding bs using py_slice_mid [of hb 20 "length (hb @ body)" body "[]"] H(1) by simp
  have "20 \<le> length bs"
    unfolding bs using H(1) by simp
  then show "from_bytes bs = Inr (h', map (raw_of mand) avps)"
    unfolding from_bytes_def Let_def L sl d by (simp add: bs H(2))
qed

lemmas cer_eval_defs =
  build_cer_send_def test_cer_def cer_avps_def opt_avp_def Let_def
  CapabilitiesExchangeRequest_def append_avp_def SUPPORTED_VENDOR_IDS_def
  HOST_IP_STRING_def ORIGIN_HOST_def ORIGIN_REALM_def VENDOR_ID_def PRODUCT_NAME_def
  ORIGIN_STATE_ID_cer_def AUTH_APP_ID_def AVP_SUPPORTED_VENDOR_ID_def
  APP_DIAMETER_CREDIT_CONTROL_APPLICATION_def E_INBAND_SECURITY_ID_NO_INBAND_SECURITY_def

lemmas codec_eval_defs =
  encode_message_def encode_avps_def avp_bytes_def to_bytes_big_def
  ipv4_bytes_def octet_def digit_val_def encode_header_def ascii_def pad4_def padding_def

lemma as_bytes_Inr:
  "encode_message mand (header c) (cer_avps c) = Inr (bs, h') \<Longrightarrow>
   as_bytes mand c = Inr (bs, c\<lparr>header := h'\<rparr>)"
  by (simp add: as_bytes_def)

lemma cer_send_encodes:
  "\<exists>bs h'. encode_message mand (header build_cer_send) (cer_avps build_cer_send) = Inr (bs, h')"
  by (simp add: cer_eval_defs codec_eval_defs split del: if_split)

lemma cer_send_decoded:
  "supported_vendor_id (map (raw_of mand) (cer_avps build_cer_send)) = [10415, 5535]"
  "decoded_inband_security_id (map (raw_of mand) (cer_avps build_cer_send)) = []"
  "u32_values 266 (map (raw_of mand) (cer_avps build_cer_send)) = [6527]"
  "u32_values 258 (map (raw_of mand) (cer_avps build_cer_send)) = [4]"
  by (simp_all add: cer_eval_defs supported_vendor_id_def decoded_inband_security_id_def
      u32_values_def raw_of_def payload_of_def to_bytes_big_def from_bytes_big_be)

text \<open>
  Claim C4. Whenever a message is encoded, the number of bytes produced equals the
  \<open>length\<close> field of its header as the encoding leaves it, and the three length bytes on
  the wire hold the same number; so it is for \<open>as_bytes\<close> on a
  Capabilities-Exchange-Request object, as \<open>test_cer_create_new\<close> asserts.
\<close>

theorem encoded_length_is_header_length:
  "(encode_message mand h avps = Inr (bs, h') \<longrightarrow>
      int (length bs) = header_length h' \<and> from_bytes_big (py_slice 1 4 bs) = length bs)
 \<and> (as_bytes mand c = Inr (bs', c') \<longrightarrow> int (length bs') = header_length (header c'))"
proof (intro conjI impI)
  assume e: "encode_message mand h avps = Inr (bs, h')"
  show "int (length bs) = header_length h'"
    using e by (rule message_roundtrip(1))
  show "from_bytes_big (py_slice 1 4 bs) = length bs"
    using e by (rule message_roundtrip(2))
next
  assume a: "as_bytes mand c = Inr (bs', c')"
  then obtain h'' where e: "encode_message mand (header c) (cer_avps c) = Inr (bs', h'')"
    and c': "c' = c\<lparr>header := h''\<rparr>"
    unfolding as_bytes_def and_then_eq_Inr by auto
  from message_roundtrip(1) [OF e] show "int (length bs') = header_length (header c')"
    by (simp add: c')
qed

lemma test_cer_encodes:
  "\<exists>bs h'. encode_message all_mandatory (header test_cer) (cer_avps test_cer) = Inr (bs, h')
     \<and> header_length h' = 168"
  by (simp add: cer_eval_defs codec_eval_defs all_mandatory_def)

theorem encoded_length_is_header_length_witness:
  "map_sum id (\<lambda>(bs, c'). (int (length bs), header_length (header c')))
     (as_bytes all_mandatory test_cer) = Inr (168, 168)"
proof -
  obtain bs h' where
    e: "encode_message all_mandatory (header test_cer) (cer_avps test_cer) = Inr (bs, h')"
    and l: "header_length h' = 168"
    using test_cer_encodes by blast
  have a: "as_bytes all_mandatory test_cer = Inr (bs, test_cer\<lparr>header := h'\<rparr>)"
    using e by (rule as_bytes_Inr)
  with encoded_length_is_header_length
    [of all_mandatory "header test_cer" "cer_avps test_cer" bs h' test_cer bs
        "test_cer\<lparr>header := h'\<rparr>"]
  have "int (length bs) = header_length (header (test_cer\<lparr>header := h'\<rparr>))"
    by blast
  with a l show ?thesis by simp
qed

lemma cer_send_encode_decode:
  "\<exists>bs h'. as_bytes mand build_cer_send = Inr (bs, build_cer_send\<lparr>header := h'\<rparr>)
     \<and> encode_decode mand build_cer_send
         = Inr (h', map (raw_of mand) (cer_avps build_cer_send))"
proof -
  obtain bs h' where
    e: "encode_message mand (header build_cer_send) (cer_avps build_cer_send) = Inr (bs, h')"
    using cer_send_encodes by blast
  have a: "as_bytes mand build_cer_send = Inr (bs, build_cer_send\<lparr>header := h'\<rparr>)"
    using e by (rule as_bytes_Inr)
  moreover have "from_bytes bs = Inr (h', map (raw_of mand) (cer_avps build_cer_send))"
    using e by (rule message_roundtrip(3))
  ultimately have "encode_decode mand build_cer_send
      = Inr (h', map (raw_of mand) (cer_avps build_cer_send))"
    by (simp add: encode_decode_def)
  with a show ?thesis by blast
qed

text \<open>
  Claim C7, as the code has it. The request that \<open>build_cer\<close> of \<^verbatim>\<open>send_cer.py\<close> builds,
  encoded and decoded back, has its two Supported-Vendor-Id AVPs in insertion order
  (10415, then 5535), Vendor-Id 6527 and Auth-Application-Id 4, and no Inband-Security-Id
  AVP: the script never assigns \<open>inband_security_id\<close>. The decoded header is the header as
  the encoding left it. This holds whatever the dictionary says about mandatory bits.
\<close>

theorem cer_roundtrip:
  "map_option supported_vendor_id (decoded_avps (encode_decode mand build_cer_send))
     = Some [10415, 5535]
 \<and> map_option decoded_inband_security_id (decoded_avps (encode_decode mand build_cer_send))
     = Some []
 \<and> map_option (u32_values 266) (decoded_avps (encode_decode mand build_cer_send))
     = Some [6527]
 \<and> map_option (u32_values 258) (decoded_avps (encode_decode mand build_cer_send))
     = Some [4]
 \<and> map_sum id fst (encode_decode mand build_cer_send)
     = map_sum id (header \<circ> snd) (as_bytes mand build_cer_send)"
proof -
  obtain bs h' where
    "as_bytes mand build_cer_send = Inr (bs, build_cer_send\<lparr>header := h'\<rparr>)"
    and "encode_decode mand build_cer_send
         = Inr (h', map (raw_of mand) (cer_avps build_cer_send))"
    using cer_send_encode_decode by blast
  then show ?thesis
    by (simp add: decoded_avps_def cer_send_decoded)
qed

text \<open>
  The claim as stated fails: the decoded request does not report NO_INBAND_SECURITY, for
  the request object has no \<open>inband_security_id\<close> and so no such AVP is encoded.
\<close>

theorem cer_roundtrip_counterexample:
  "map_option decoded_inband_security_id
     (decoded_avps (encode_decode all_mandatory build_cer_send))
     \<noteq> Some [nat E_INBAND_SECURITY_ID_NO_INBAND_SECURITY]
 \<and> map_option decoded_inband_security_id
     (decoded_avps (encode_decode all_mandatory build_cer_send)) = Some []
 \<and> inband_security_id build_cer_send = None"
proof -
  obtain h' where
    "encode_decode all_mandatory build_cer_send
         = Inr (h', map (raw_of all_mandatory) (cer_avps build_cer_send))"
    using cer_send_encode_decode by blast
  moreover have "inband_security_id build_cer_send = None"
    by (simp add: cer_eval_defs)
  ultimately show ?thesis
    by (simp add: decoded_avps_def cer_send_decoded)
qed

end
